theory Spec2Isabelle
  imports Complex_Main "HOL-Library.Word"
begin

unbundle bit_operations_syntax

section \<open>Machine types\<close>

text \<open>
  The headers \<^verbatim>\<open>lcloud_controller.h\<close>, \<^verbatim>\<open>lcloud_filesys.h\<close>, \<^verbatim>\<open>lcloud_cache.h\<close> and
  \<^verbatim>\<open>lcloud_network.h\<close> are not among the sources.  A register frame
  (\<^verbatim>\<open>LCloudRegisterFrame\<close>) is compared with \<^verbatim>\<open>-1\<close> and shifted logically, and the
  specification fixes its width at 64 bits, so it is a 64-bit word; the registers
  \<^verbatim>\<open>int64_t\<close> are 64-bit words read with \<open>sint\<close> where their sign matters.
\<close>

type_synonym byte = "8 word"
type_synonym int64_t = "64 word"
type_synonym LCloudRegisterFrame = "64 word"

section \<open>Register codec (lcloud_filesys.c)\<close>

text \<open>\<^verbatim>\<open>create_lcloud_registers\<close>: every argument is masked to its width, shifted to its
  position and the seven parts are combined with bitwise or.\<close>

definition create_lcloud_registers ::
  "int64_t \<Rightarrow> int64_t \<Rightarrow> int64_t \<Rightarrow> int64_t \<Rightarrow> int64_t \<Rightarrow> int64_t \<Rightarrow> int64_t
    \<Rightarrow> LCloudRegisterFrame" where
  "create_lcloud_registers B0_4bit B1_4bit C0_8bit C1_8bit C2_8bit D0_16bit D1_16bit =
     (let t_b0 = push_bit 60 (B0_4bit AND 0xf);
          t_b1 = push_bit 56 (B1_4bit AND 0xf);
          t_c0 = push_bit 48 (C0_8bit AND 0xff);
          t_c1 = push_bit 40 (C1_8bit AND 0xff);
          t_c2 = push_bit 32 (C2_8bit AND 0xff);
          t_d0 = push_bit 16 (D0_16bit AND 0xffff);
          t_d1 = D1_16bit AND 0xffff
      in t_b0 OR t_b1 OR t_c0 OR t_c1 OR t_c2 OR t_d0 OR t_d1)"

text \<open>\<^verbatim>\<open>extract_lcloud_registers\<close>: the fields are taken from the least significant end,
  the frame being shifted right after each one.  The C function stores them through seven
  pointers and always returns 0; the model returns the tuple
  \<open>(b0, b1, c0, c1, c2, d0, d1)\<close>.\<close>

definition extract_lcloud_registers ::
  "LCloudRegisterFrame \<Rightarrow>
     int64_t \<times> int64_t \<times> int64_t \<times> int64_t \<times> int64_t \<times> int64_t \<times> int64_t" where
  "extract_lcloud_registers resp =
     (let D1_16bit = resp AND 0xffff; resp1 = drop_bit 16 resp;
          D0_16bit = resp1 AND 0xffff; resp2 = drop_bit 16 resp1;
          C2_8bit = resp2 AND 0xff; resp3 = drop_bit 8 resp2;
          C1_8bit = resp3 AND 0xff; resp4 = drop_bit 8 resp3;
          C0_8bit = resp4 AND 0xff; resp5 = drop_bit 8 resp4;
          B1_4bit = resp5 AND 0xf; resp6 = drop_bit 4 resp5;
          B0_4bit = resp6 AND 0xf
      in (B0_4bit, B1_4bit, C0_8bit, C1_8bit, C2_8bit, D0_16bit, D1_16bit))"


section \<open>Constants of the missing headers\<close>

text \<open>The operation codes, the transfer directions and the number of cache lines are
  defined in \<^verbatim>\<open>lcloud_controller.h\<close> and \<^verbatim>\<open>lcloud_cache.h\<close>, which are not among the
  sources, and the specification gives no values for them: they are parameters of the
  model, passed to every function that uses one.\<close>

record lc_constants =
  LC_POWER_ON :: int64_t
  LC_DEVPROBE :: int64_t
  LC_DEVINIT :: int64_t
  LC_BLOCK_XFER :: int64_t
  LC_POWER_OFF :: int64_t
  LC_XFER_READ :: int64_t
  LC_XFER_WRITE :: int64_t
  LC_CACHE_MAXBLOCKS :: int

text \<open>Modelled from the spec: \<^verbatim>\<open>LC_DEVICE_BLOCK_SIZE\<close>, the size in bytes of a block, a
  macro of the missing header; the specification fixes it at 256, the number that
  \<^verbatim>\<open>lcloud_filesys.c\<close> and \<^verbatim>\<open>lcloud_cache.c\<close> write out.\<close>

definition LC_DEVICE_BLOCK_SIZE :: nat where
  "LC_DEVICE_BLOCK_SIZE = 256"

section \<open>Memory\<close>

text \<open>A pointer obtained from \<^verbatim>\<open>malloc\<close> is null (a global before its first assignment, or
  after \<^verbatim>\<open>= NULL\<close>), live with the array it points to, or freed.  Every function of the
  model returns an \<open>option\<close>: \<open>None\<close> is undefined behaviour of the C program (an access
  through a null or freed pointer or outside an array, the use of an indeterminate value);
  the failure value \<^verbatim>\<open>-1\<close> of the C functions is an ordinary result inside \<open>Some\<close>.\<close>

datatype 'a heap_ptr = Null | Live "'a list" | Freed

definition deref :: "'a heap_ptr \<Rightarrow> int \<Rightarrow> 'a option" where
  "deref p i = (case p of Live xs \<Rightarrow> if 0 \<le> i \<and> nat i < length xs then Some (xs ! nat i) else None
                | _ \<Rightarrow> None)"

definition store :: "'a heap_ptr \<Rightarrow> int \<Rightarrow> 'a \<Rightarrow> 'a heap_ptr option" where
  "store p i v = (case p of Live xs \<Rightarrow> if 0 \<le> i \<and> nat i < length xs then Some (Live (xs[nat i := v])) else None
                  | _ \<Rightarrow> None)"

text \<open>\<^verbatim>\<open>strncpy(dst, src, n)\<close>: the characters of \<open>src\<close> before its first NUL, at most \<open>n\<close>,
  then NULs up to \<open>n\<close> characters.\<close>

definition strncpy :: "byte list \<Rightarrow> nat \<Rightarrow> byte list" where
  "strncpy src n = (let s = takeWhile (\<lambda>c. c \<noteq> 0) (take n src) in s @ replicate (n - length s) 0)"

text \<open>\<^verbatim>\<open>memcpy(&dst[i], src, n)\<close> on a buffer held as a list.  The destination is assumed to
  have room for the \<open>n\<close> bytes, as the C callers must ensure.\<close>

definition memcpy_at :: "byte list \<Rightarrow> nat \<Rightarrow> byte list \<Rightarrow> nat \<Rightarrow> byte list" where
  "memcpy_at dst i src n = take i dst @ take n src @ drop (i + n) dst"

section \<open>Cache (lcloud_cache.c)\<close>

text \<open>\<^verbatim>\<open>LcDeviceId\<close> is a typedef of a missing header; device numbers are held as integers.
  The sector and block of a line are \<^verbatim>\<open>uint16_t\<close>.\<close>

record lcloud_cache =
  buffer :: "byte list"
  entry_time :: int
  c_dev_id :: int
  c_sec :: "16 word"
  c_blk :: "16 word"

text \<open>\<^verbatim>\<open>int\<close> is 32 bits wide; an \<^verbatim>\<open>int\<close> addition whose result is above \<open>INT_MAX\<close> is
  undefined.\<close>

definition INT_MAX :: int where
  "INT_MAX = 2147483647"

text \<open>A value of type \<^verbatim>\<open>float\<close>, in the IEEE 754 single format (24 bits of significand,
  exponents from \<open>- 126\<close> to 127): not a number, an infinity, the negative zero, or a finite
  number, held as the rational it denotes (\<open>FNum 0\<close> is the positive zero).\<close>

datatype c_float = FNaN | FInf | FNegInf | FNegZero | FNum rat

definition pow2 :: "int \<Rightarrow> rat" where
  "pow2 k = (if 0 \<le> k then 2 ^ nat k else 1 / 2 ^ nat (- k))"

text \<open>The number of binary digits of a positive integer.\<close>

function bit_length :: "int \<Rightarrow> int" where
  "bit_length n = (if n \<le> 0 then 0 else bit_length (n div 2) + 1)"
  by pat_completeness auto
termination
  by (relation "measure nat") auto

declare bit_length.simps [simp del]

text \<open>For a positive rational \<open>x\<close>, the exponent \<open>e\<close> with \<open>2 ^ e \<le> x < 2 ^ (e + 1)\<close>: with
  \<open>x = p / q\<close> it is the difference of the numbers of digits of \<open>p\<close> and \<open>q\<close>, or one
  less.\<close>

definition floor_log2 :: "rat \<Rightarrow> int" where
  "floor_log2 x =
     (case quotient_of x of
        (p, q) \<Rightarrow>
          (let e = bit_length p - bit_length q in
           if pow2 e \<le> x then e else e - 1))"

text \<open>The integer nearest to a rational, the even one of the two when it lies half way.\<close>

definition round_half_even :: "rat \<Rightarrow> int" where
  "round_half_even x =
     (let f = \<lfloor>x\<rfloor>; d = x - of_int f in
      if d < 1 / 2 then f
      else if 1 / 2 < d then f + 1
      else if even f then f else f + 1)"

text \<open>Rounding of a rational to \<^verbatim>\<open>float\<close>, to nearest with ties to even: the result is a
  multiple of \<open>2 ^ (e - 23)\<close>, where \<open>e\<close> is the exponent of the number and at least
  \<open>- 126\<close>; a result of \<open>2 ^ 128\<close> or more is an infinity.\<close>

definition round_to_float :: "rat \<Rightarrow> c_float" where
  "round_to_float x =
     (if x = 0 then FNum 0
      else
        (let a = \<bar>x\<bar>;
             e = max (floor_log2 a) (- 126);
             q = pow2 (e - 23);
             y = of_int (round_half_even (a / q)) * q
         in if pow2 128 \<le> y then (if 0 < x then FInf else FNegInf)
            else if y = 0 then (if 0 < x then FNum 0 else FNegZero)
            else FNum (if 0 < x then y else - y)))"

text \<open>The conversion \<^verbatim>\<open>(float)n\<close> of an \<^verbatim>\<open>int\<close>.\<close>

definition int_to_float :: "int \<Rightarrow> c_float" where
  "int_to_float n = round_to_float (of_int n)"

text \<open>The quotient \<^verbatim>\<open>a / b\<close> of two floats.  No case of it traps: \<open>0 / 0\<close> and the quotient of
  two infinities are not a number, a number other than zero divided by a zero is an infinity,
  and the quotient of two finite numbers is rounded.  The sign of a zero or of an infinity
  that results is the product of the signs.\<close>

definition float_is_inf :: "c_float \<Rightarrow> bool" where
  "float_is_inf a = (a = FInf \<or> a = FNegInf)"

definition float_is_zero :: "c_float \<Rightarrow> bool" where
  "float_is_zero a = (a = FNegZero \<or> a = FNum 0)"

definition float_negative :: "c_float \<Rightarrow> bool" where
  "float_negative a = (case a of FNegInf \<Rightarrow> True | FNegZero \<Rightarrow> True | FNum x \<Rightarrow> x < 0 | _ \<Rightarrow> False)"

definition float_value :: "c_float \<Rightarrow> rat" where
  "float_value a = (case a of FNum x \<Rightarrow> x | _ \<Rightarrow> 0)"

definition float_div :: "c_float \<Rightarrow> c_float \<Rightarrow> c_float" where
  "float_div a b =
     (let negative = (float_negative a \<noteq> float_negative b) in
      if a = FNaN \<or> b = FNaN then FNaN
      else if float_is_inf a then
        (if float_is_inf b then FNaN else if negative then FNegInf else FInf)
      else if float_is_inf b then (if negative then FNegZero else FNum 0)
      else if float_is_zero b then
        (if float_is_zero a then FNaN else if negative then FNegInf else FInf)
      else if float_is_zero a then (if negative then FNegZero else FNum 0)
      else round_to_float (float_value a / float_value b))"

text \<open>The globals of \<^verbatim>\<open>lcloud_cache.c\<close>; \<open>cache_log\<close> collects the statistics lines written
  to the log, latest first.\<close>

record cache_state =
  LRU_cache :: "lcloud_cache heap_ptr"
  hits :: int
  misses :: int
  cache_time :: int
  cache_lines :: int
  cache_log :: "(int \<times> int \<times> c_float) list"

definition cache_startup :: cache_state where
  "cache_startup = \<lparr>LRU_cache = Null, hits = 0, misses = 0, cache_time = 0, cache_lines = 0,
     cache_log = []\<rparr>"

text \<open>The loop of \<^verbatim>\<open>lcloud_getcache\<close>: the index of the first line with the key, if any.\<close>

function getcache_scan :: "cache_state \<Rightarrow> int \<Rightarrow> int \<Rightarrow> 16 word \<Rightarrow> 16 word \<Rightarrow> int option option" where
  "getcache_scan c i did sec blk =
     (if i < cache_lines c then
        (case deref (LRU_cache c) i of
           None \<Rightarrow> None
         | Some l \<Rightarrow>
             if c_dev_id l = did \<and> c_sec l = sec \<and> c_blk l = blk then Some (Some i)
             else getcache_scan c (i + 1) did sec blk)
      else Some None)"
  by pat_completeness auto
termination
  by (relation "measure (\<lambda>(c, i, did, sec, blk). nat (cache_lines c - i))") auto

text \<open>\<^verbatim>\<open>lcloud_getcache\<close>: the buffer of the line found (\<open>Some\<close>), or \<open>None\<close> for \<^verbatim>\<open>NULL\<close>.
  The increment of a counter that holds \<open>INT_MAX\<close> is undefined.\<close>

definition lcloud_getcache ::
  "cache_state \<Rightarrow> int \<Rightarrow> 16 word \<Rightarrow> 16 word \<Rightarrow> (cache_state \<times> byte list option) option" where
  "lcloud_getcache c did sec blk =
     (if cache_time c = INT_MAX then None
      else
        (let c1 = c\<lparr>cache_time := cache_time c + 1\<rparr> in
         case getcache_scan c1 0 did sec blk of
           None \<Rightarrow> None
         | Some None \<Rightarrow>
             if misses c1 = INT_MAX then None else Some (c1\<lparr>misses := misses c1 + 1\<rparr>, None)
         | Some (Some i) \<Rightarrow>
             if hits c1 = INT_MAX then None
             else
               (case deref (LRU_cache c1) i of
                  None \<Rightarrow> None
                | Some l \<Rightarrow>
                    (case store (LRU_cache c1) i (l\<lparr>entry_time := cache_time c1\<rparr>) of
                       None \<Rightarrow> None
                     | Some p \<Rightarrow>
                         Some (c1\<lparr>hits := hits c1 + 1, LRU_cache := p\<rparr>, Some (buffer l))))))"

text \<open>The loop of \<^verbatim>\<open>lcloud_putcache\<close>.  \<open>least_recent\<close> is declared without a value, so it is
  \<open>None\<close> until the loop assigns it.\<close>

function putcache_scan ::
  "cache_state \<Rightarrow> int \<Rightarrow> int \<Rightarrow> int option \<Rightarrow> int \<Rightarrow> 16 word \<Rightarrow> 16 word \<Rightarrow> int option option" where
  "putcache_scan c i least_time least_recent did sec blk =
     (if i < cache_lines c then
        (case deref (LRU_cache c) i of
           None \<Rightarrow> None
         | Some cache \<Rightarrow>
             if c_dev_id cache = did \<and> c_sec cache = sec \<and> c_blk cache = blk then Some (Some i)
             else if entry_time cache < least_time
               then putcache_scan c (i + 1) (entry_time cache) (Some i) did sec blk
               else putcache_scan c (i + 1) least_time least_recent did sec blk)
      else Some least_recent)"
  by pat_completeness auto
termination
  by (relation "measure (\<lambda>(c, i, lt, lr, did, sec, blk). nat (cache_lines c - i))") auto

text \<open>\<^verbatim>\<open>lcloud_putcache\<close>.  After the loop every field of the local line is overwritten, its
  buffer by \<^verbatim>\<open>strncpy\<close>, and the line is stored at \<open>least_recent\<close>; with \<open>least_recent\<close>
  never assigned the store is undefined, as is the increment of a clock that holds
  \<open>INT_MAX\<close>.\<close>

definition lcloud_putcache ::
  "cache_state \<Rightarrow> int \<Rightarrow> 16 word \<Rightarrow> 16 word \<Rightarrow> byte list \<Rightarrow> (cache_state \<times> int) option" where
  "lcloud_putcache c did sec blk block =
     (if cache_time c = INT_MAX then None
      else
        (let least_time = cache_time c;
             c1 = c\<lparr>cache_time := cache_time c + 1\<rparr> in
         case putcache_scan c1 0 least_time None did sec blk of
           None \<Rightarrow> None
         | Some None \<Rightarrow> None
         | Some (Some least_recent) \<Rightarrow>
             (let cache = \<lparr>buffer = strncpy block 256, entry_time = cache_time c1,
                            c_dev_id = did, c_sec = sec, c_blk = blk\<rparr> in
              case store (LRU_cache c1) least_recent cache of
                None \<Rightarrow> None
              | Some p \<Rightarrow> Some (c1\<lparr>LRU_cache := p\<rparr>, 0))))"

text \<open>\<^verbatim>\<open>lcloud_initcache\<close>: the counters and the clock are not reset.\<close>

definition lcloud_initcache :: "cache_state \<Rightarrow> int \<Rightarrow> cache_state \<times> int" where
  "lcloud_initcache c maxblocks =
     (c\<lparr>cache_lines := maxblocks,
        LRU_cache := Live (replicate (nat maxblocks)
          \<lparr>buffer = replicate 256 0, entry_time = - 1, c_dev_id = - 1, c_sec = - 1, c_blk = - 1\<rparr>)\<rparr>, 0)"

text \<open>\<^verbatim>\<open>lcloud_closecache\<close>: frees the array and logs the counters and the quotient
  \<^verbatim>\<open>(float)hits / (hits + misses)\<close>, which is computed whatever the counters are: the sum is
  an \<^verbatim>\<open>int\<close> addition (undefined when it overflows), converted to \<^verbatim>\<open>float\<close> for the
  division.\<close>

definition hit_ratio :: "cache_state \<Rightarrow> c_float" where
  "hit_ratio c = float_div (int_to_float (hits c)) (int_to_float (hits c + misses c))"

definition lcloud_closecache :: "cache_state \<Rightarrow> (cache_state \<times> int) option" where
  "lcloud_closecache c =
     (case LRU_cache c of
        Freed \<Rightarrow> None
      | Null \<Rightarrow>
          if hits c + misses c < - INT_MAX - 1 \<or> INT_MAX < hits c + misses c then None
          else Some (c\<lparr>cache_log := (hits c, misses c, hit_ratio c) # cache_log c\<rparr>, 0)
      | Live xs \<Rightarrow>
          if hits c + misses c < - INT_MAX - 1 \<or> INT_MAX < hits c + misses c then None
          else Some (c\<lparr>LRU_cache := Freed,
                       cache_log := (hits c, misses c, hit_ratio c) # cache_log c\<rparr>, 0))"


section \<open>Network client (lcloud_client.c)\<close>

text \<open>The socket is the environment of the program.  What the peer and the kernel do is
  given as three scripts: the outcome of each attempt to set up a connection (whether the
  address converts, the descriptor returned by \<^verbatim>\<open>socket\<close>, whether \<^verbatim>\<open>connect\<close>
  succeeds), the value returned by each call of \<^verbatim>\<open>write\<close> and the bytes delivered by each
  call of \<^verbatim>\<open>read\<close>.  A script that has run out makes the call fail.  \<open>syscalls\<close> is the
  sequence of calls the client has issued.\<close>

datatype syscall = Sys_socket | Sys_connect | Sys_write "byte list" | Sys_read nat | Sys_close

record network =
  connect_results :: "(bool \<times> int \<times> bool) list"
  write_results :: "int list"
  read_results :: "byte list list"
  syscalls :: "syscall list"

record client_state =
  socket_handle :: int
  net :: network

definition sock_write :: "client_state \<Rightarrow> byte list \<Rightarrow> client_state \<times> int" where
  "sock_write cl bs =
     (let n = (net cl)\<lparr>syscalls := syscalls (net cl) @ [Sys_write bs]\<rparr> in
      case write_results n of
        [] \<Rightarrow> (cl\<lparr>net := n\<rparr>, - 1)
      | r # rs \<Rightarrow> (cl\<lparr>net := n\<lparr>write_results := rs\<rparr>\<rparr>, r))"

definition sock_read :: "client_state \<Rightarrow> nat \<Rightarrow> client_state \<times> byte list" where
  "sock_read cl k =
     (let n = (net cl)\<lparr>syscalls := syscalls (net cl) @ [Sys_read k]\<rparr> in
      case read_results n of
        [] \<Rightarrow> (cl\<lparr>net := n\<rparr>, [])
      | r # rs \<Rightarrow> (cl\<lparr>net := n\<lparr>read_results := rs\<rparr>\<rparr>, take k r))"

text \<open>Modelled from the spec: \<^verbatim>\<open>htonll64\<close> and \<^verbatim>\<open>ntohll64\<close> of the missing
  \<^verbatim>\<open>cmpsc311_util.h\<close>.  A frame is transmitted big-endian; \<open>htonll64\<close> gives the eight bytes
  that \<^verbatim>\<open>write(socket_handle, &nbo, sizeof(nbo))\<close> sends, most significant first, and
  \<open>ntohll64\<close> the frame for eight bytes received.\<close>

definition htonll64 :: "LCloudRegisterFrame \<Rightarrow> byte list" where
  "htonll64 reg = map (\<lambda>k. ucast (drop_bit (8 * k) reg)) [7, 6, 5, 4, 3, 2, 1, 0]"

definition ntohll64 :: "byte list \<Rightarrow> LCloudRegisterFrame" where
  "ntohll64 bs = foldl (\<lambda>acc b. push_bit 8 acc OR ucast b) 0 bs"

text \<open>\<^verbatim>\<open>lcloud_client_extract_registers\<close>, the client's copy of the decoder.\<close>

definition lcloud_client_extract_registers ::
  "LCloudRegisterFrame \<Rightarrow>
     int64_t \<times> int64_t \<times> int64_t \<times> int64_t \<times> int64_t \<times> int64_t \<times> int64_t" where
  "lcloud_client_extract_registers resp =
     (let D1_16bit = resp AND 0xffff; resp1 = drop_bit 16 resp;
          D0_16bit = resp1 AND 0xffff; resp2 = drop_bit 16 resp1;
          C2_8bit = resp2 AND 0xff; resp3 = drop_bit 8 resp2;
          C1_8bit = resp3 AND 0xff; resp4 = drop_bit 8 resp3;
          C0_8bit = resp4 AND 0xff; resp5 = drop_bit 8 resp4;
          B1_4bit = resp5 AND 0xf; resp6 = drop_bit 4 resp5;
          B0_4bit = resp6 AND 0xf
      in (B0_4bit, B1_4bit, C0_8bit, C1_8bit, C2_8bit, D0_16bit, D1_16bit))"

text \<open>The first statement of \<^verbatim>\<open>client_lcloud_bus_request\<close>: with no connection
  (\<open>socket_handle = -1\<close>) the address is converted, the socket created and connected.  The
  result is \<open>False\<close> where the C function returns \<^verbatim>\<open>-1\<close>.  A failed \<^verbatim>\<open>connect\<close> leaves the
  descriptor in \<open>socket_handle\<close>.\<close>

definition client_connect :: "client_state \<Rightarrow> client_state \<times> bool" where
  "client_connect cl =
     (if socket_handle cl = - 1 then
        (case connect_results (net cl) of
           [] \<Rightarrow> (cl, False)
         | (addr_ok, fd, conn_ok) # rest \<Rightarrow>
             (let n0 = (net cl)\<lparr>connect_results := rest\<rparr> in
              if \<not> addr_ok then (cl\<lparr>net := n0\<rparr>, False)
              else
                (let n1 = n0\<lparr>syscalls := syscalls n0 @ [Sys_socket]\<rparr> in
                 if fd = - 1 then (cl\<lparr>socket_handle := fd, net := n1\<rparr>, False)
                 else
                   (let n2 = n1\<lparr>syscalls := syscalls n1 @ [Sys_connect]\<rparr> in
                    (cl\<lparr>socket_handle := fd, net := n2\<rparr>, conn_ok)))))
      else (cl, True))"

text \<open>\<^verbatim>\<open>client_lcloud_bus_request\<close>: the frame returned (\<open>- 1\<close>, all bits set, on failure) and
  the caller's buffer, which a block read overwrites with the bytes received.\<close>

definition client_lcloud_bus_request ::
  "lc_constants \<Rightarrow> client_state \<Rightarrow> LCloudRegisterFrame \<Rightarrow> byte list
     \<Rightarrow> client_state \<times> LCloudRegisterFrame \<times> byte list" where
  "client_lcloud_bus_request K cl reg buf =
     (case client_connect cl of
        (cl0, False) \<Rightarrow> (cl0, - 1, buf)
      | (cl0, True) \<Rightarrow>
         (case lcloud_client_extract_registers reg of (b0, b1, c0, c1, c2, d0, d1) \<Rightarrow>
          let nbo = htonll64 reg in
          if c0 = LC_BLOCK_XFER K \<and> c2 = LC_XFER_READ K then
            (case sock_write cl0 nbo of (cl1, w) \<Rightarrow>
             if w \<noteq> 8 then (cl1, - 1, buf)
             else (case sock_read cl1 8 of (cl2, r) \<Rightarrow>
               if int (length r) \<noteq> 8 then (cl2, - 1, buf)
               else (case sock_read cl2 LC_DEVICE_BLOCK_SIZE of (cl3, p) \<Rightarrow>
                 if length p \<noteq> LC_DEVICE_BLOCK_SIZE
                   then (cl3, - 1, memcpy_at buf 0 p (length p))
                   else (cl3, ntohll64 r, memcpy_at buf 0 p LC_DEVICE_BLOCK_SIZE))))
          else if c0 = LC_BLOCK_XFER K \<and> c2 = LC_XFER_WRITE K then
            (case sock_write cl0 nbo of (cl1, w) \<Rightarrow>
             if w \<noteq> 8 then (cl1, - 1, buf)
             else (case sock_write cl1 (take LC_DEVICE_BLOCK_SIZE buf) of (cl2, w2) \<Rightarrow>
               if w2 \<noteq> int LC_DEVICE_BLOCK_SIZE then (cl2, - 1, buf)
               else (case sock_read cl2 8 of (cl3, r) \<Rightarrow>
                 if int (length r) \<noteq> 8 then (cl3, - 1, buf)
                 else (cl3, ntohll64 r, buf))))
          else if c0 = LC_POWER_OFF K then
            (case sock_write cl0 nbo of (cl1, w) \<Rightarrow>
             if w \<noteq> 8 then (cl1, - 1, buf)
             else (case sock_read cl1 8 of (cl2, r) \<Rightarrow>
               if int (length r) \<noteq> 8 then (cl2, - 1, buf)
               else
                 (cl2\<lparr>socket_handle := - 1,
                      net := (net cl2)\<lparr>syscalls := syscalls (net cl2) @ [Sys_close]\<rparr>\<rparr>,
                  ntohll64 r, buf)))
          else
            (case sock_write cl0 nbo of (cl1, w) \<Rightarrow>
             if w \<noteq> 8 then (cl1, - 1, buf)
             else (case sock_read cl1 8 of (cl2, r) \<Rightarrow>
               if int (length r) \<noteq> 8 then (cl2, - 1, buf)
               else (cl2, ntohll64 r, buf)))))"


section \<open>File system (lcloud_filesys.c): data\<close>

text \<open>A block descriptor; \<open>- 1\<close> in a link field means that there is no next block.\<close>

record lcloud_block =
  next_sector :: int
  next_block :: int
  next_dev_id :: int
  used :: int

text \<open>A device.  \<^verbatim>\<open>sector_block\<close> points to an array of rows, one for each sector; the rows
  are never freed, the array is freed by \<^verbatim>\<open>lcshutdown\<close>.  A local copy of a device
  (\<^verbatim>\<open>dev = devices[id]\<close>) shares the rows with the table, so a store through the copy is a
  store into the table.\<close>

record lcloud_device =
  sector_block :: "lcloud_block list heap_ptr"
  sectors :: int
  blocks :: int
  d_dev_id :: int

text \<open>A file.  The first block of a file (\<^verbatim>\<open>dev_id\<close>, \<^verbatim>\<open>sector\<close>, \<^verbatim>\<open>block\<close>) is not
  assigned by \<^verbatim>\<open>lcopen\<close>: these three fields are \<open>None\<close> while their value is
  indeterminate.\<close>

record lcloud_file =
  f_fh :: int
  f_name :: string
  f_pos :: int
  f_size :: int
  f_block :: "int option"
  f_sector :: "int option"
  f_dev_id :: "int option"
  f_opened :: int

text \<open>\<^verbatim>\<open>lcopen\<close> compares the pointer \<^verbatim>\<open>path\<close> with the address of the name of a file.  A
  string handed to \<^verbatim>\<open>lcopen\<close> is its address and its characters; an address is that of the
  name buffer of an entry of the file table or lies elsewhere, as the address of every
  string that a caller builds does.\<close>

datatype address = Name_of_file nat | Elsewhere nat

record c_string =
  s_addr :: address
  s_chars :: string

text \<open>The globals of \<^verbatim>\<open>lcloud_filesys.c\<close>, with the state of the cache and of the client.
  \<^verbatim>\<open>files\<close> has \<open>0xfff\<close> entries and \<^verbatim>\<open>devices\<close> has 16; both are functions of the index,
  and every access checks the index against these bounds.  Two fields are history, not
  program state: \<open>exchanges\<close> lists each frame handed to \<^verbatim>\<open>client_lcloud_bus_request\<close> with
  the frame it returned, and \<open>power_ons\<close> counts the calls of \<^verbatim>\<open>device_power_on\<close>.\<close>

record fs_state =
  file_handle :: int
  files :: "nat \<Rightarrow> lcloud_file"
  devices :: "nat \<Rightarrow> lcloud_device"
  cache :: cache_state
  client :: client_state
  exchanges :: "(LCloudRegisterFrame \<times> LCloudRegisterFrame) list"
  power_ons :: nat

text \<open>The state at program start: globals are zero, \<open>socket_handle\<close> is \<open>- 1\<close>.\<close>

definition fs_startup :: "network \<Rightarrow> fs_state" where
  "fs_startup n =
     \<lparr>file_handle = 0,
      files = (\<lambda>k. \<lparr>f_fh = 0, f_name = [], f_pos = 0, f_size = 0, f_block = Some 0,
                     f_sector = Some 0, f_dev_id = Some 0, f_opened = 0\<rparr>),
      devices = (\<lambda>k. \<lparr>sector_block = Null, sectors = 0, blocks = 0, d_dev_id = 0\<rparr>),
      cache = cache_startup,
      client = \<lparr>socket_handle = - 1, net = n\<rparr>,
      exchanges = [],
      power_ons = 0\<rparr>"

text \<open>\<^verbatim>\<open>dev.sector_block[i][j]\<close>, read and updated.\<close>

definition block_at :: "lcloud_device \<Rightarrow> int \<Rightarrow> int \<Rightarrow> lcloud_block option" where
  "block_at dev i j =
     (case deref (sector_block dev) i of
        None \<Rightarrow> None
      | Some row \<Rightarrow> if 0 \<le> j \<and> nat j < length row then Some (row ! nat j) else None)"

definition block_update ::
  "lcloud_device \<Rightarrow> int \<Rightarrow> int \<Rightarrow> (lcloud_block \<Rightarrow> lcloud_block) \<Rightarrow> lcloud_device option" where
  "block_update dev i j f =
     (case deref (sector_block dev) i of
        None \<Rightarrow> None
      | Some row \<Rightarrow>
          if 0 \<le> j \<and> nat j < length row then
            (case store (sector_block dev) i (row[nat j := f (row ! nat j)]) of
               None \<Rightarrow> None
             | Some p \<Rightarrow> Some (dev\<lparr>sector_block := p\<rparr>))
          else None)"

section \<open>File system: requests to the bus\<close>

text \<open>A call \<^verbatim>\<open>client_lcloud_bus_request(frm, buf)\<close> made by the file system, entered in
  the history.\<close>

definition bus_request ::
  "lc_constants \<Rightarrow> fs_state \<Rightarrow> LCloudRegisterFrame \<Rightarrow> byte list
     \<Rightarrow> fs_state \<times> LCloudRegisterFrame \<times> byte list" where
  "bus_request K st frm buf =
     (case client_lcloud_bus_request K (client st) frm buf of
        (cl, rfrm, buf') \<Rightarrow>
          (st\<lparr>client := cl, exchanges := exchanges st @ [(frm, rfrm)]\<rparr>, rfrm, buf'))"

text \<open>The condition that follows every request in \<^verbatim>\<open>lcloud_filesys.c\<close>,
  \<^verbatim>\<open>(frm == -1) || ((rfrm = client_lcloud_bus_request(frm, buf)) == -1) ||
   (extract_lcloud_registers(rfrm, ...)) || (b0 != 1) || (b1 != 1) || (c0 != op)\<close>,
  evaluated from left to right.  The result is \<open>None\<close> where the condition holds (the
  caller then returns \<^verbatim>\<open>-1\<close>), and otherwise the registers of the response and the
  buffer.\<close>

definition request ::
  "lc_constants \<Rightarrow> fs_state \<Rightarrow> LCloudRegisterFrame \<Rightarrow> byte list \<Rightarrow> int64_t
     \<Rightarrow> fs_state \<times>
        ((int64_t \<times> int64_t \<times> int64_t \<times> int64_t \<times> int64_t \<times> int64_t \<times> int64_t) \<times> byte list) option" where
  "request K st frm buf op =
     (if frm = - 1 then (st, None)
      else
        (case bus_request K st frm buf of
           (st1, rfrm, buf1) \<Rightarrow>
             if rfrm = - 1 then (st1, None)
             else
               (case extract_lcloud_registers rfrm of
                  (b0, b1, c0, c1, c2, d0, d1) \<Rightarrow>
                    if b0 \<noteq> 1 \<or> b1 \<noteq> 1 \<or> c0 \<noteq> op then (st1, None)
                    else (st1, Some ((b0, b1, c0, c1, c2, d0, d1), buf1)))))"

section \<open>File system: power on\<close>

text \<open>The loop of \<^verbatim>\<open>device_power_on\<close> over the 16 bits of the probe.  \<open>probe\<close> is not
  negative (it is the 16-bit field \<open>d0\<close>), so \<^verbatim>\<open>probe & 1\<close> and \<^verbatim>\<open>probe >> 1\<close> are
  \<open>mod 2\<close> and \<open>div 2\<close>.  The result is \<open>- 1\<close> where the C function returns from inside the
  loop.\<close>

function device_init_loop :: "lc_constants \<Rightarrow> fs_state \<Rightarrow> int \<Rightarrow> int \<Rightarrow> fs_state \<times> int" where
  "device_init_loop K st did probe =
     (if did < 16 then
        (if probe mod 2 \<noteq> 0 then
           (case request K st (create_lcloud_registers 0 0 (LC_DEVINIT K) (word_of_int did) 0 0 0) []
                   (LC_DEVINIT K) of
              (st1, None) \<Rightarrow> (st1, - 1)
            | (st1, Some ((b0, b1, c0, c1, c2, d0, d1), buf)) \<Rightarrow>
                device_init_loop K
                  (st1\<lparr>devices := (devices st1)(nat did :=
                     \<lparr>sector_block = Live (replicate (unat d0) (replicate (unat d1)
                          \<lparr>next_sector = - 1, next_block = - 1, next_dev_id = - 1, used = 0\<rparr>)),
                      sectors = uint d0, blocks = uint d1, d_dev_id = did\<rparr>)\<rparr>)
                  (did + 1) (probe div 2))
         else
           device_init_loop K
             (st\<lparr>devices := (devices st)(nat did := (devices st (nat did))\<lparr>d_dev_id := - 1\<rparr>)\<rparr>)
             (did + 1) (probe div 2))
      else (st, 0))"
  by pat_completeness auto
termination
  by (relation "measure (\<lambda>(K, st, did, probe). nat (16 - did))") auto

text \<open>\<^verbatim>\<open>device_power_on\<close>.\<close>

definition device_power_on :: "lc_constants \<Rightarrow> fs_state \<Rightarrow> fs_state \<times> int" where
  "device_power_on K st =
     (case request K (st\<lparr>power_ons := power_ons st + 1\<rparr>)
             (create_lcloud_registers 0 0 (LC_POWER_ON K) 0 0 0 0) [] (LC_POWER_ON K) of
        (st1, None) \<Rightarrow> (st1, - 1)
      | (st1, Some r1) \<Rightarrow>
          (case request K st1 (create_lcloud_registers 0 0 (LC_DEVPROBE K) 0 0 0 0) []
                  (LC_DEVPROBE K) of
             (st2, None) \<Rightarrow> (st2, - 1)
           | (st2, Some ((b0, b1, c0, c1, c2, d0, d1), buf)) \<Rightarrow>
               (case device_init_loop K st2 0 (uint d0) of
                  (st3, r) \<Rightarrow>
                    if r = - 1 then (st3, - 1)
                    else (st3\<lparr>cache := fst (lcloud_initcache (cache st3) (LC_CACHE_MAXBLOCKS K))\<rparr>, 0))))"



section \<open>File system: handles and blocks\<close>

text \<open>\<^verbatim>\<open>validate_fh\<close>: \<open>Some None\<close> where the C function returns \<^verbatim>\<open>-1\<close>, and the file
  otherwise.  The handle indexes \<^verbatim>\<open>files\<close>, which has \<open>0xfff\<close> entries.\<close>

definition validate_fh :: "fs_state \<Rightarrow> int \<Rightarrow> lcloud_file option option" where
  "validate_fh st fh =
     (if fh > file_handle st then Some None
      else if \<not> (0 \<le> fh \<and> fh < 0xfff) then None
      else if f_opened (files st (nat fh)) = 0 then Some None
      else Some (Some (files st (nat fh))))"

text \<open>The three loops of \<^verbatim>\<open>allocate_block\<close>, innermost first: the first unused block of a
  sector, of a device, of the table.  The result \<open>Some None\<close> is a loop that ran to its end.\<close>

function allocate_block_blocks :: "lcloud_device \<Rightarrow> int \<Rightarrow> int \<Rightarrow> int option option" where
  "allocate_block_blocks dev i j =
     (if j < blocks dev then
        (case block_at dev i j of
           None \<Rightarrow> None
         | Some b \<Rightarrow> if used b = 0 then Some (Some j) else allocate_block_blocks dev i (j + 1))
      else Some None)"
  by pat_completeness auto
termination
  by (relation "measure (\<lambda>(dev, i, j). nat (blocks dev - j))") auto

function allocate_block_sectors :: "lcloud_device \<Rightarrow> int \<Rightarrow> (int \<times> int) option option" where
  "allocate_block_sectors dev i =
     (if i < sectors dev then
        (case allocate_block_blocks dev i 0 of
           None \<Rightarrow> None
         | Some (Some j) \<Rightarrow> Some (Some (i, j))
         | Some None \<Rightarrow> allocate_block_sectors dev (i + 1))
      else Some None)"
  by pat_completeness auto
termination
  by (relation "measure (\<lambda>(dev, i). nat (sectors dev - i))") auto

function allocate_block_devices ::
  "(nat \<Rightarrow> lcloud_device) \<Rightarrow> int \<Rightarrow> (int \<times> int \<times> int) option option" where
  "allocate_block_devices devs did =
     (if did < 16 then
        (if d_dev_id (devs (nat did)) \<noteq> - 1 then
           (case allocate_block_sectors (devs (nat did)) 0 of
              None \<Rightarrow> None
            | Some (Some (i, j)) \<Rightarrow> Some (Some (did, i, j))
            | Some None \<Rightarrow> allocate_block_devices devs (did + 1))
         else allocate_block_devices devs (did + 1))
      else Some None)"
  by pat_completeness auto
termination
  by (relation "measure (\<lambda>(devs, did). nat (16 - did))") auto

text \<open>\<^verbatim>\<open>allocate_block\<close>: the device table with the block found marked used, and the
  device, sector and block returned; \<open>None\<close> in their place where the C function returns
  \<^verbatim>\<open>-1\<close>.\<close>

definition allocate_block ::
  "(nat \<Rightarrow> lcloud_device) \<Rightarrow> ((nat \<Rightarrow> lcloud_device) \<times> (int \<times> int \<times> int) option) option" where
  "allocate_block devs =
     (case allocate_block_devices devs 0 of
        None \<Rightarrow> None
      | Some None \<Rightarrow> Some (devs, None)
      | Some (Some (did, i, j)) \<Rightarrow>
          (case block_update (devs (nat did)) i j (\<lambda>b. b\<lparr>used := 1\<rparr>) of
             None \<Rightarrow> None
           | Some dev \<Rightarrow> Some (devs(nat did := dev), Some (did, i, j))))"

text \<open>The loop of \<^verbatim>\<open>get_block\<close>.  The device of the next block is held as its index in the
  table; the copy \<^verbatim>\<open>devices[...]\<close> is taken where the C code first reads a field of it.
  (For the last block of a chain the C code copies \<^verbatim>\<open>devices[-1]\<close> and never reads the
  copy.)  \<open>Some None\<close> is the return of \<^verbatim>\<open>-1\<close> from inside the loop.\<close>

function get_block_walk ::
  "(nat \<Rightarrow> lcloud_device) \<Rightarrow> int \<Rightarrow> int \<Rightarrow> int \<Rightarrow> int \<Rightarrow> int \<Rightarrow> (int \<times> int \<times> int) option option" where
  "get_block_walk devs pos next_dev next_sec next_blk i =
     (if next_sec = - 1 \<or> next_blk = - 1 then Some None
      else if \<not> (0 \<le> next_dev \<and> next_dev < 16) then None
      else
        (case block_at (devs (nat next_dev)) next_sec next_blk of
           None \<Rightarrow> None
         | Some b \<Rightarrow>
             if i + 256 \<le> pos
               then get_block_walk devs pos (next_dev_id b) (next_sector b) (next_block b) (i + 256)
               else Some (Some (d_dev_id (devs (nat next_dev)), next_sec, next_blk))))"
  by pat_completeness auto
termination
  by (relation "measure (\<lambda>(devs, pos, nd, ns, nb, i). nat (pos - i + 1))") auto

text \<open>\<^verbatim>\<open>get_block\<close>: the value returned (the \<^verbatim>\<open>dev_id\<close> field of the device reached), the
  sector and the block.\<close>

definition get_block ::
  "(nat \<Rightarrow> lcloud_device) \<Rightarrow> lcloud_file \<Rightarrow> (int \<times> int \<times> int) option option" where
  "get_block devs file =
     (case (f_dev_id file, f_sector file, f_block file) of
        (Some d, Some s, Some b) \<Rightarrow> get_block_walk devs (f_pos file) d s b 0
      | _ \<Rightarrow> None)"

text \<open>\<^verbatim>\<open>add_block\<close>: the device table and the value returned.\<close>

definition add_block ::
  "(nat \<Rightarrow> lcloud_device) \<Rightarrow> lcloud_file \<Rightarrow> ((nat \<Rightarrow> lcloud_device) \<times> int) option" where
  "add_block devs file =
     (case get_block devs (file\<lparr>f_pos := f_pos file - 1\<rparr>) of
        None \<Rightarrow> None
      | Some None \<Rightarrow> Some (devs, - 1)
      | Some (Some (dev_id, sec, blk)) \<Rightarrow>
          if dev_id = - 1 then Some (devs, - 1)
          else
            (case allocate_block devs of
               None \<Rightarrow> None
             | Some (devs1, None) \<Rightarrow> Some (devs1, - 1)
             | Some (devs1, Some (next_dev_id', next_sec, next_blk)) \<Rightarrow>
                 if \<not> (0 \<le> dev_id \<and> dev_id < 16) then None
                 else
                   (case block_update (devs1 (nat dev_id)) sec blk
                           (\<lambda>b. b\<lparr>next_sector := next_sec, next_block := next_blk,
                                   next_dev_id := next_dev_id'\<rparr>) of
                      None \<Rightarrow> None
                    | Some dev \<Rightarrow> Some (devs1(nat dev_id := dev), 0))))"

section \<open>File system: open, seek, close\<close>

text \<open>The loop of \<^verbatim>\<open>lcopen\<close>: the first handle below \<open>file_handle\<close> whose name buffer is at
  the address \<open>path\<close>.\<close>

function lcopen_lookup :: "fs_state \<Rightarrow> c_string \<Rightarrow> int \<Rightarrow> int option option" where
  "lcopen_lookup st path fh =
     (if fh < file_handle st then
        (if \<not> (0 \<le> fh \<and> fh < 0xfff) then None
         else if Name_of_file (nat fh) = s_addr path then Some (Some fh)
         else lcopen_lookup st path (fh + 1))
      else Some None)"
  by pat_completeness auto
termination
  by (relation "measure (\<lambda>(st, path, fh). nat (file_handle st - fh))") auto

text \<open>\<^verbatim>\<open>lcopen\<close>.  The name stored is that of \<^verbatim>\<open>strncpy(file.name, path, 259)\<close>: the
  characters of the path before its first NUL, at most 259.\<close>

definition lcopen :: "lc_constants \<Rightarrow> fs_state \<Rightarrow> c_string \<Rightarrow> (fs_state \<times> int) option" where
  "lcopen K st path =
     (case (if file_handle st = 0 then device_power_on K st else (st, 0)) of
        (st1, r) \<Rightarrow>
          if r = - 1 then Some (st1, - 1)
          else
            (case lcopen_lookup st1 path 0 of
               None \<Rightarrow> None
             | Some (Some fh) \<Rightarrow>
                 if f_opened (files st1 (nat fh)) = 1 then Some (st1, - 1)
                 else Some (st1\<lparr>files := (files st1)(nat fh :=
                              (files st1 (nat fh))\<lparr>f_pos := 0, f_opened := 1\<rparr>)\<rparr>, fh)
             | Some None \<Rightarrow>
                 (let fh = (if 0 < file_handle st1 then file_handle st1 else 0) in
                  if \<not> (0 \<le> fh \<and> fh < 0xfff) then None
                  else
                    Some (st1\<lparr>file_handle := file_handle st1 + 1,
                             files := (files st1)(nat fh :=
                               \<lparr>f_fh = file_handle st1 + 1,
                                f_name = take 259 (takeWhile (\<lambda>c. c \<noteq> CHR 0x00) (s_chars path)),
                                f_pos = 0, f_size = 0, f_block = None, f_sector = None,
                                f_dev_id = None, f_opened = 1\<rparr>)\<rparr>, fh))))"

text \<open>\<^verbatim>\<open>lcseek\<close>.  The offset is a \<^verbatim>\<open>size_t\<close>: \<^verbatim>\<open>off < 0\<close> is a comparison of unsigned
  values, and in \<^verbatim>\<open>off > file.size\<close> the size is converted to \<^verbatim>\<open>size_t\<close>.  The position
  (an \<^verbatim>\<open>int\<close>) receives the low 32 bits of the offset.\<close>

definition lcseek :: "fs_state \<Rightarrow> int \<Rightarrow> 64 word \<Rightarrow> (fs_state \<times> int) option" where
  "lcseek st fh off =
     (case validate_fh st fh of
        None \<Rightarrow> None
      | Some None \<Rightarrow> Some (st, - 1)
      | Some (Some file) \<Rightarrow>
          if off < 0 \<or> off > word_of_int (f_size file) then Some (st, - 1)
          else
            (let file1 = file\<lparr>f_pos := sint (ucast off :: 32 word)\<rparr> in
             Some (st\<lparr>files := (files st)(nat fh := file1)\<rparr>, f_pos file1)))"

text \<open>\<^verbatim>\<open>lcclose\<close>.\<close>

definition lcclose :: "fs_state \<Rightarrow> int \<Rightarrow> (fs_state \<times> int) option" where
  "lcclose st fh =
     (case validate_fh st fh of
        None \<Rightarrow> None
      | Some None \<Rightarrow> Some (st, - 1)
      | Some (Some file) \<Rightarrow>
          if f_opened file = 0 then Some (st, - 1)
          else Some (st\<lparr>files := (files st)(nat fh := file\<lparr>f_opened := 0\<rparr>)\<rparr>, 0))"



section \<open>File system: read and write\<close>

text \<open>The remainder of C's \<^verbatim>\<open>%\<close>, which truncates towards zero, and the conversion of an
  \<^verbatim>\<open>int\<close> to \<^verbatim>\<open>size_t\<close>.  Lengths and the loop counter \<^verbatim>\<open>i\<close> are natural numbers; the
  model is exact for lengths below \<open>2 ^ 31\<close>, which the \<^verbatim>\<open>int\<close> returned by \<^verbatim>\<open>lcread\<close> and
  \<^verbatim>\<open>lcwrite\<close> presupposes.\<close>

definition c_rem :: "int \<Rightarrow> int \<Rightarrow> int" where
  "c_rem a b = sgn a * (\<bar>a\<bar> mod \<bar>b\<bar>)"

definition to_size_t :: "int \<Rightarrow> nat" where
  "to_size_t x = nat (x mod 2 ^ 64)"

text \<open>Lines 550 to 566 of \<^verbatim>\<open>lcread\<close>: the 256 bytes of a block, from the cache or, when the
  cache has no line for it, from the bus, the cache being left as it is.  \<open>None\<close> in place
  of the bytes where \<^verbatim>\<open>lcread\<close> returns \<^verbatim>\<open>-1\<close>.\<close>

definition lcread_fetch ::
  "lc_constants \<Rightarrow> fs_state \<Rightarrow> int \<Rightarrow> int \<Rightarrow> int \<Rightarrow> (fs_state \<times> byte list option) option" where
  "lcread_fetch K st dev_id sec blk =
     (case lcloud_getcache (cache st) dev_id (word_of_int sec) (word_of_int blk) of
        None \<Rightarrow> None
      | Some (c1, None) \<Rightarrow>
          (case request K (st\<lparr>cache := c1\<rparr>)
                  (create_lcloud_registers 0 0 (LC_BLOCK_XFER K) (word_of_int dev_id)
                     (LC_XFER_READ K) (word_of_int sec) (word_of_int blk))
                  (replicate 256 0) (LC_BLOCK_XFER K) of
             (st1, None) \<Rightarrow> Some (st1, None)
           | (st1, Some (regs, temp)) \<Rightarrow> Some (st1, Some temp))
      | Some (c1, Some cache_block) \<Rightarrow> Some (st\<lparr>cache := c1\<rparr>, Some (take 256 cache_block)))"

text \<open>One iteration of the loop of \<^verbatim>\<open>lcread\<close>: \<open>Inl\<close> is a return from inside the loop,
  with the state, the value returned and the caller's buffer; \<open>Inr\<close> is the state, the
  local file, \<^verbatim>\<open>i\<close> and the buffer after the iteration.\<close>

definition lcread_body ::
  "lc_constants \<Rightarrow> fs_state \<Rightarrow> lcloud_file \<Rightarrow> nat \<Rightarrow> nat \<Rightarrow> byte list
     \<Rightarrow> ((fs_state \<times> int \<times> byte list) + (fs_state \<times> lcloud_file \<times> nat \<times> byte list)) option" where
  "lcread_body K st file len i buf =
     (let pos_in_block = c_rem (f_pos file) 256 in
      case get_block (devices st) file of
        None \<Rightarrow> None
      | Some None \<Rightarrow> Some (Inl (st, - 1, buf))
      | Some (Some (dev_id, sec, blk)) \<Rightarrow>
          if dev_id = - 1 then Some (Inl (st, - 1, buf))
          else
            (case lcread_fetch K st dev_id sec blk of
               None \<Rightarrow> None
             | Some (st1, None) \<Rightarrow> Some (Inl (st1, - 1, buf))
             | Some (st1, Some temp) \<Rightarrow>
                 if pos_in_block = 0 then
                   (if int len - int i < 256
                      then Some (Inr (st1, file\<lparr>f_pos := f_pos file + (int len - int i)\<rparr>, len,
                                      memcpy_at buf i temp (len - i)))
                      else Some (Inr (st1, file\<lparr>f_pos := f_pos file + 256\<rparr>, i + 256,
                                      memcpy_at buf i temp 256)))
                 else
                   (if int len + pos_in_block - int i < 256
                      then Some (Inr (st1, file\<lparr>f_pos := f_pos file + (int len - int i)\<rparr>, len,
                                      memcpy_at buf i (drop (nat pos_in_block) temp) (len - i)))
                      else Some (Inr (st1, file\<lparr>f_pos := f_pos file + (256 - pos_in_block)\<rparr>,
                                      i + nat (256 - pos_in_block),
                                      memcpy_at buf i (drop (nat pos_in_block) temp)
                                        (nat (256 - pos_in_block)))))))"

function lcread_loop ::
  "lc_constants \<Rightarrow> fs_state \<Rightarrow> lcloud_file \<Rightarrow> nat \<Rightarrow> nat \<Rightarrow> byte list
     \<Rightarrow> ((fs_state \<times> int \<times> byte list) + (fs_state \<times> lcloud_file \<times> byte list)) option" where
  "lcread_loop K st file len i buf =
     (if i < len then
        (case lcread_body K st file len i buf of
           None \<Rightarrow> None
         | Some (Inl r) \<Rightarrow> Some (Inl r)
         | Some (Inr (st1, file1, i1, buf1)) \<Rightarrow> lcread_loop K st1 file1 len i1 buf1)
      else Some (Inr (st, file, buf)))"
  by pat_completeness auto
termination
proof (relation "measure (\<lambda>(K, st, fl, len, i, buf). len - i)", goal_cases)
  case 1
  show ?case by simp
next
  case (2 K st fl len i buf x2 b x y xa ya xb yb)
  have r: "c_rem p 256 < 256" for p
  proof -
    have "0 \<le> (- p) mod 256" by simp
    then have "- ((- p) mod 256) < 256" by linarith
    moreover have "p mod 256 < 256" by simp
    ultimately show ?thesis by (simp add: c_rem_def sgn_if)
  qed
  from 2 show ?case
    using r [of "f_pos fl"]
    by (auto simp add: lcread_body_def Let_def split: option.splits prod.splits if_splits)
qed

text \<open>\<^verbatim>\<open>lcread\<close>: the state, the value returned and the caller's buffer.\<close>

definition lcread ::
  "lc_constants \<Rightarrow> fs_state \<Rightarrow> int \<Rightarrow> byte list \<Rightarrow> nat \<Rightarrow> (fs_state \<times> int \<times> byte list) option" where
  "lcread K st fh buf len =
     (case validate_fh st fh of
        None \<Rightarrow> None
      | Some None \<Rightarrow> Some (st, - 1, buf)
      | Some (Some file) \<Rightarrow>
          if f_size file = 0 then Some (st, 0, buf)
          else
            (let len1 = (if to_size_t (f_pos file + int len) > to_size_t (f_size file)
                         then to_size_t (f_size file - f_pos file) else len) in
             case lcread_loop K st file len1 0 buf of
               None \<Rightarrow> None
             | Some (Inl r) \<Rightarrow> Some r
             | Some (Inr (st1, file1, buf1)) \<Rightarrow>
                 Some (st1\<lparr>files := (files st1)(nat fh := file1)\<rparr>, int len1, buf1)))"

text \<open>Lines 636 to 659 of \<^verbatim>\<open>lcwrite\<close>: the caller's bytes are copied into the block read,
  the position and \<^verbatim>\<open>i\<close> advance.\<close>

definition lcwrite_splice ::
  "lcloud_file \<Rightarrow> byte list \<Rightarrow> byte list \<Rightarrow> nat \<Rightarrow> nat \<Rightarrow> byte list \<times> lcloud_file \<times> nat" where
  "lcwrite_splice file temp buf len i =
     (let pos_in_block = c_rem (f_pos file) 256 in
      if pos_in_block = 0 then
        (if int len - int i < 256
           then (memcpy_at temp 0 (drop i buf) (len - i),
                 file\<lparr>f_pos := f_pos file + (int len - int i)\<rparr>, len)
           else (memcpy_at temp 0 (drop i buf) 256, file\<lparr>f_pos := f_pos file + 256\<rparr>, i + 256))
      else
        (if int len + pos_in_block - int i < 256
           then (memcpy_at temp (nat pos_in_block) (drop i buf) (len - i),
                 file\<lparr>f_pos := f_pos file + (int len - int i)\<rparr>, len)
           else (memcpy_at temp (nat pos_in_block) (drop i buf) (nat (256 - pos_in_block)),
                 file\<lparr>f_pos := f_pos file + (256 - pos_in_block)\<rparr>,
                 i + nat (256 - pos_in_block))))"

text \<open>One iteration of the loop of \<^verbatim>\<open>lcwrite\<close>.  The values returned by \<^verbatim>\<open>lcseek\<close> and
  \<^verbatim>\<open>lcread\<close> are not looked at.  \<open>Inl\<close> is a return from inside the loop.\<close>

definition lcwrite_body ::
  "lc_constants \<Rightarrow> fs_state \<Rightarrow> int \<Rightarrow> lcloud_file \<Rightarrow> byte list \<Rightarrow> nat \<Rightarrow> nat
     \<Rightarrow> ((fs_state \<times> int) + (fs_state \<times> lcloud_file \<times> nat)) option" where
  "lcwrite_body K st fh file buf len i =
     (let pos_in_block = c_rem (f_pos file) 256 in
      case get_block (devices st) file of
        None \<Rightarrow> None
      | Some None \<Rightarrow> Some (Inl (st, - 1))
      | Some (Some (dev_id, sec, blk)) \<Rightarrow>
          if dev_id = - 1 then Some (Inl (st, - 1))
          else
            (case lcseek st fh (word_of_int (f_pos file - pos_in_block)) of
               None \<Rightarrow> None
             | Some (st1, r1) \<Rightarrow>
                 (case lcread K st1 fh (replicate 256 0) 256 of
                    None \<Rightarrow> None
                  | Some (st2, r2, temp) \<Rightarrow>
                      (case lcwrite_splice file temp buf len i of
                         (temp1, file1, i1) \<Rightarrow>
                           (case request K st2
                                   (create_lcloud_registers 0 0 (LC_BLOCK_XFER K) (word_of_int dev_id)
                                      (LC_XFER_WRITE K) (word_of_int sec) (word_of_int blk))
                                   temp1 (LC_BLOCK_XFER K) of
                              (st3, None) \<Rightarrow> Some (Inl (st3, - 1))
                            | (st3, Some (regs, temp2)) \<Rightarrow>
                                (case lcloud_putcache (cache st3) dev_id (word_of_int sec)
                                        (word_of_int blk) temp2 of
                                   None \<Rightarrow> None
                                 | Some (c4, r4) \<Rightarrow>
                                     if r4 = - 1 then Some (Inl (st3\<lparr>cache := c4\<rparr>, - 1))
                                     else if f_pos file1 \<ge> f_size file1 then
                                       (if c_rem (f_pos file1) 256 = 0 then
                                          (case add_block (devices st3) (file1\<lparr>f_size := f_pos file1\<rparr>) of
                                             None \<Rightarrow> None
                                           | Some (devs, r5) \<Rightarrow>
                                               if r5 = - 1
                                               then Some (Inl (st3\<lparr>cache := c4, devices := devs\<rparr>, - 1))
                                               else Some (Inr (st3\<lparr>cache := c4, devices := devs,
                                                      files := (files st3)(nat fh := file1\<lparr>f_size := f_pos file1\<rparr>)\<rparr>,
                                                    file1\<lparr>f_size := f_pos file1\<rparr>, i1)))
                                        else Some (Inr (st3\<lparr>cache := c4,
                                               files := (files st3)(nat fh := file1\<lparr>f_size := f_pos file1\<rparr>)\<rparr>,
                                             file1\<lparr>f_size := f_pos file1\<rparr>, i1)))
                                     else Some (Inr (st3\<lparr>cache := c4,
                                            files := (files st3)(nat fh := file1)\<rparr>, file1, i1))))))))"

function lcwrite_loop ::
  "lc_constants \<Rightarrow> fs_state \<Rightarrow> int \<Rightarrow> lcloud_file \<Rightarrow> byte list \<Rightarrow> nat \<Rightarrow> nat
     \<Rightarrow> ((fs_state \<times> int) + (fs_state \<times> lcloud_file)) option" where
  "lcwrite_loop K st fh file buf len i =
     (if i < len then
        (case lcwrite_body K st fh file buf len i of
           None \<Rightarrow> None
         | Some (Inl r) \<Rightarrow> Some (Inl r)
         | Some (Inr (st1, file1, i1)) \<Rightarrow> lcwrite_loop K st1 fh file1 buf len i1)
      else Some (Inr (st, file)))"
  by pat_completeness auto
termination
proof (relation "measure (\<lambda>(K, st, fh, fl, buf, len, i). len - i)", goal_cases)
  case 1
  show ?case by simp
next
  case (2 K st fh fl buf len i x2 b x y xa ya)
  have r: "c_rem p 256 < 256" for p
  proof -
    have "0 \<le> (- p) mod 256" by simp
    then have "- ((- p) mod 256) < 256" by linarith
    moreover have "p mod 256 < 256" by simp
    ultimately show ?thesis by (simp add: c_rem_def sgn_if)
  qed
  have s: "lcwrite_splice fl temp buf len i = (t, f, i1) \<Longrightarrow> len - i1 < len - i" for temp t f i1
    using r [of "f_pos fl"] \<open>i < len\<close>
    by (auto simp add: lcwrite_splice_def Let_def split: if_splits)
  from 2 show ?case
    by (auto simp add: lcwrite_body_def Let_def split: option.splits prod.splits if_splits dest: s)
qed

text \<open>\<^verbatim>\<open>lcwrite\<close>: the state and the value returned.  \<open>len\<close> is the length given by the
  caller, who must supply at least as many bytes in \<open>buf\<close>.\<close>

definition lcwrite ::
  "lc_constants \<Rightarrow> fs_state \<Rightarrow> int \<Rightarrow> byte list \<Rightarrow> nat \<Rightarrow> (fs_state \<times> int) option" where
  "lcwrite K st fh buf len =
     (case validate_fh st fh of
        None \<Rightarrow> None
      | Some None \<Rightarrow> Some (st, - 1)
      | Some (Some file) \<Rightarrow>
          (case (if f_size file = 0 then
                   (case allocate_block (devices st) of
                      None \<Rightarrow> None
                    | Some (devs, None) \<Rightarrow> Some (Inl (st\<lparr>devices := devs\<rparr>))
                    | Some (devs, Some (d, s, b)) \<Rightarrow>
                        Some (Inr (st\<lparr>devices := devs\<rparr>,
                                   file\<lparr>f_dev_id := Some d, f_sector := Some s, f_block := Some b\<rparr>)))
                 else Some (Inr (st, file))) of
             None \<Rightarrow> None
           | Some (Inl st1) \<Rightarrow> Some (st1, - 1)
           | Some (Inr (st1, file1)) \<Rightarrow>
               (case lcwrite_loop K st1 fh file1 buf len 0 of
                  None \<Rightarrow> None
                | Some (Inl r) \<Rightarrow> Some r
                | Some (Inr (st2, file2)) \<Rightarrow> Some (st2, int len))))"

section \<open>File system: shutdown\<close>




section \<open>Runs of the interface\<close>






section \<open>Notions used in the statements\<close>

text \<open>A device as \<^verbatim>\<open>device_power_on\<close> builds it: the array of rows is live, it has
  \<open>sectors\<close> rows and every row has \<open>blocks\<close> descriptors.  A table is well formed when
  every device that is present (\<^verbatim>\<open>dev_id\<close> not \<open>- 1\<close>) is.\<close>

definition grid_ok :: "lcloud_device \<Rightarrow> bool" where
  "grid_ok dev =
     (case sector_block dev of
        Live rows \<Rightarrow>
          0 \<le> sectors dev \<and> 0 \<le> blocks dev \<and> length rows = nat (sectors dev) \<and>
          list_all (\<lambda>row. length row = nat (blocks dev)) rows
      | _ \<Rightarrow> False)"

definition table_ok :: "(nat \<Rightarrow> lcloud_device) \<Rightarrow> bool" where
  "table_ok devs = list_all (\<lambda>k. d_dev_id (devs k) \<noteq> - 1 \<longrightarrow> grid_ok (devs k)) [0..<16]"

text \<open>The descriptor of block \<open>j\<close> of sector \<open>i\<close> of device \<open>d\<close>, when \<open>d\<close> is a present
  device and has that block.\<close>

definition descriptor :: "(nat \<Rightarrow> lcloud_device) \<Rightarrow> int \<Rightarrow> int \<Rightarrow> int \<Rightarrow> lcloud_block option" where
  "descriptor devs d i j =
     (if 0 \<le> d \<and> d < 16 \<and> d_dev_id (devs (nat d)) \<noteq> - 1 \<and>
         0 \<le> i \<and> i < sectors (devs (nat d)) \<and> 0 \<le> j \<and> j < blocks (devs (nat d))
      then block_at (devs (nat d)) i j else None)"

text \<open>The order in which \<^verbatim>\<open>allocate_block\<close> visits the descriptors: by device, then
  sector, then block.\<close>

definition visited_before :: "int \<times> int \<times> int \<Rightarrow> int \<times> int \<times> int \<Rightarrow> bool" where
  "visited_before a b =
     (case a of (d', i', j') \<Rightarrow> case b of (d, i, j) \<Rightarrow>
        d' < d \<or> (d' = d \<and> (i' < i \<or> (i' = i \<and> j' < j))))"


text \<open>An example: device 0 has one sector of two blocks, the first of them used; no other
  device is present.\<close>

definition example_table :: "nat \<Rightarrow> lcloud_device" where
  "example_table = (\<lambda>k. if k = 0 then
       \<lparr>sector_block = Live [[\<lparr>next_sector = - 1, next_block = - 1, next_dev_id = - 1, used = 1\<rparr>,
                                \<lparr>next_sector = - 1, next_block = - 1, next_dev_id = - 1, used = 0\<rparr>]],
        sectors = 1, blocks = 2, d_dev_id = 0\<rparr>
     else \<lparr>sector_block = Null, sectors = 0, blocks = 0, d_dev_id = - 1\<rparr>)"


text \<open>An example: a state in which handle 0 is an open file of 10 bytes at position 3.\<close>

definition example_open_file :: lcloud_file where
  "example_open_file =
     \<lparr>f_fh = 1, f_name = ''a'', f_pos = 3, f_size = 10, f_block = Some 0, f_sector = Some 0,
      f_dev_id = Some 0, f_opened = 1\<rparr>"

definition example_seek_state :: fs_state where
  "example_seek_state =
     (fs_startup \<lparr>connect_results = [], write_results = [], read_results = [], syscalls = []\<rparr>)
       \<lparr>file_handle := 1,
        files := (files (fs_startup \<lparr>connect_results = [], write_results = [], read_results = [],
                    syscalls = []\<rparr>))(0 := example_open_file)\<rparr>"

text \<open>A sequence of lookups, each given by its device, sector and block: the cache after
  them and the number of them that hit.\<close>

fun cache_lookups ::
  "cache_state \<Rightarrow> (int \<times> 16 word \<times> 16 word) list \<Rightarrow> (cache_state \<times> nat) option" where
  "cache_lookups c [] = Some (c, 0)"
| "cache_lookups c ((did, sec, blk) # keys) =
     (case lcloud_getcache c did sec blk of
        None \<Rightarrow> None
      | Some (c1, r) \<Rightarrow>
          (case cache_lookups c1 keys of
             None \<Rightarrow> None
           | Some (c2, h) \<Rightarrow> Some (c2, (if r = None then 0 else 1) + h)))"

text \<open>An example of values for the constants of the missing headers, used where a statement
  is evaluated on a concrete run.\<close>

definition example_constants :: lc_constants where
  "example_constants =
     \<lparr>LC_POWER_ON = 0, LC_DEVPROBE = 1, LC_DEVINIT = 2, LC_BLOCK_XFER = 3, LC_POWER_OFF = 4,
      LC_XFER_READ = 1, LC_XFER_WRITE = 0, LC_CACHE_MAXBLOCKS = 4\<rparr>"

text \<open>An example of a client with an open connection whose peer answers every request.\<close>

definition example_client :: client_state where
  "example_client =
     \<lparr>socket_handle = 3,
      net = \<lparr>connect_results = [(True, 4, True)], write_results = [8, 256, 8],
             read_results = [htonll64 (create_lcloud_registers 1 1 3 0 0 0 0), replicate 256 9],
             syscalls = []\<rparr>\<rparr>"

text \<open>An example of a peer: the connection succeeds, every \<^verbatim>\<open>write\<close> is complete, and the
  frames read are the acknowledgements (\<open>b0 = b1 = 1\<close>, the code of the request in \<open>c0\<close>) of
  a power-on, of a probe that finds device 0 alone, of the initialisation of device 0 with one
  sector of two blocks, of a block transfer and of a power-off.\<close>

definition example_network :: network where
  "example_network =
     \<lparr>connect_results = [(True, 3, True)],
      write_results = [8, 8, 8, 8, 256, 8],
      read_results =
        [htonll64 (create_lcloud_registers 1 1 0 0 0 0 0),
         htonll64 (create_lcloud_registers 1 1 1 0 0 1 0),
         htonll64 (create_lcloud_registers 1 1 2 0 0 1 2),
         htonll64 (create_lcloud_registers 1 1 3 0 0 0 0),
         htonll64 (create_lcloud_registers 1 1 4 0 0 0 0)],
      syscalls = []\<rparr>"

text \<open>An example of a peer that answers one block read.\<close>

definition example_fresh_read :: network where
  "example_fresh_read =
     \<lparr>connect_results = [(True, 3, True)],
      write_results = [8],
      read_results = [htonll64 (create_lcloud_registers 1 1 3 0 0 0 0), replicate 256 9],
      syscalls = []\<rparr>"

text \<open>The same peer, except that its answer to the power-on has 15 in \<open>b0\<close> and \<open>b1\<close>.\<close>

definition example_network_15 :: network where
  "example_network_15 =
     example_network\<lparr>read_results :=
        htonll64 (create_lcloud_registers 15 15 0 0 0 0 0) # tl (read_results example_network)\<rparr>"

text \<open>Two strings with the same characters at different addresses.\<close>

definition example_path :: c_string where
  "example_path = \<lparr>s_addr = Elsewhere 0, s_chars = ''a''\<rparr>"

definition example_path' :: c_string where
  "example_path' = \<lparr>s_addr = Elsewhere 1, s_chars = ''a''\<rparr>"

text \<open>An example of a run from program start: a file is opened; the two bytes \<open>0x00, 0x41\<close>
  are written to it; the position is set back to 0; two bytes are read into a buffer that
  holds \<open>0xff, 0xff\<close>.  The result is the values that the four calls return, with the buffer
  after the read.\<close>

definition example_run :: "(int \<times> int \<times> int \<times> int \<times> byte list) option" where
  "example_run =
     Option.bind (lcopen example_constants (fs_startup example_network) example_path) (\<lambda>(st1, fh).
       Option.bind (lcwrite example_constants st1 fh [0x00, 0x41] 2) (\<lambda>(st2, w).
         Option.bind (lcseek st2 fh 0) (\<lambda>(st3, s).
           Option.bind (lcread example_constants st3 fh [0xff, 0xff] 2) (\<lambda>(st4, r, buf).
             Some (fh, w, s, r, buf)))))"

text \<open>An example of a run from program start: a path is opened; it is opened again, through
  a second string with the same characters, while the file is open; two bytes are written
  to the first file and it is closed; the path is opened a third time.  The result is the
  three handles returned, with the sizes at the end of the files that the first and the third
  name.\<close>

definition example_open_again :: "(int \<times> int \<times> int \<times> int \<times> int) option" where
  "example_open_again =
     Option.bind (lcopen example_constants (fs_startup example_network) example_path) (\<lambda>(st1, fh).
       Option.bind (lcopen example_constants st1 example_path') (\<lambda>(st2, fh').
         Option.bind (lcwrite example_constants st2 fh [0x41, 0x42] 2) (\<lambda>(st3, w).
           Option.bind (lcclose st3 fh) (\<lambda>(st4, c).
             Option.bind (lcopen example_constants st4 example_path) (\<lambda>(st5, fh'').
               Some (fh, fh', fh'', f_size (files st5 (nat fh)), f_size (files st5 (nat fh''))))))))"






text \<open>The fields \<open>b0\<close> and \<open>b1\<close> of the responses in a history.\<close>

definition acknowledgement_fields ::
  "(LCloudRegisterFrame \<times> LCloudRegisterFrame) list \<Rightarrow> (int64_t \<times> int64_t) list" where
  "acknowledgement_fields es =
     map (\<lambda>e. case extract_lcloud_registers (snd e) of (b0, b1, rest) \<Rightarrow> (b0, b1)) es"

text \<open>An example: the value that the first open of a run returns, with the fields \<open>b0\<close> and
  \<open>b1\<close> of the responses it was given.\<close>

definition example_first_open ::
  "network \<Rightarrow> (int \<times> (int64_t \<times> int64_t) list) option" where
  "example_first_open n =
     map_option (\<lambda>(st, fh). (fh, acknowledgement_fields (exchanges st)))
       (lcopen example_constants (fs_startup n) example_path)"

text \<open>The test that follows a request, on the frame returned: both \<open>b0\<close> and \<open>b1\<close> are 1
  and \<open>c0\<close> is the code expected.\<close>

definition passed :: "int64_t \<Rightarrow> LCloudRegisterFrame \<Rightarrow> bool" where
  "passed op rfrm =
     (case extract_lcloud_registers rfrm of
        (b0, b1, c0, c1, c2, d0, d1) \<Rightarrow> b0 = 1 \<and> b1 = 1 \<and> c0 = op)"

text \<open>An exchange (a request frame with the frame returned for it) is acknowledged when the
  response has \<open>b0 = 1\<close> and \<open>b1 = 1\<close> and carries in \<open>c0\<close> the code of the request.\<close>

definition acknowledged :: "LCloudRegisterFrame \<times> LCloudRegisterFrame \<Rightarrow> bool" where
  "acknowledged e =
     (case e of (frm, rfrm) \<Rightarrow>
        case extract_lcloud_registers frm of
          (q0, q1, op, q3, q4, q5, q6) \<Rightarrow> passed op rfrm)"

text \<open>The frames that \<^verbatim>\<open>lcwrite\<close> builds for the transfer of a block to a device.\<close>

definition is_write_request :: "lc_constants \<Rightarrow> LCloudRegisterFrame \<Rightarrow> bool" where
  "is_write_request K frm =
     (case extract_lcloud_registers frm of
        (b0, b1, c0, c1, c2, d0, d1) \<Rightarrow>
          frm = create_lcloud_registers 0 0 (LC_BLOCK_XFER K) c1 (LC_XFER_WRITE K) d0 d1)"

text \<open>The exchanges made between two states of a run.\<close>

definition new_exchanges ::
  "fs_state \<Rightarrow> fs_state \<Rightarrow> (LCloudRegisterFrame \<times> LCloudRegisterFrame) list" where
  "new_exchanges st st' = drop (length (exchanges st)) (exchanges st')"

text \<open>A step that leaves the handle counter and the count of power-ons as they are, and
  adds to the history only exchanges with a given property.\<close>

definition extends_by ::
  "(LCloudRegisterFrame \<times> LCloudRegisterFrame \<Rightarrow> bool) \<Rightarrow> fs_state \<Rightarrow> fs_state \<Rightarrow> bool" where
  "extends_by P st st' =
     (file_handle st' = file_handle st \<and> power_ons st' = power_ons st \<and>
      length (exchanges st) \<le> length (exchanges st') \<and>
      take (length (exchanges st)) (exchanges st') = exchanges st \<and>
      list_all P (new_exchanges st st'))"

text \<open>The two directions of a block transfer have different codes in the 8 bits that a
  frame keeps of them.\<close>

definition directions_differ :: "lc_constants \<Rightarrow> bool" where
  "directions_differ K = (LC_XFER_READ K AND 0xff \<noteq> LC_XFER_WRITE K AND 0xff)"


section \<open>Register codec: the two round trips\<close>

lemma mask16: "(0xffff :: 64 word) = mask 16" by (simp add: mask_eq_exp_minus_1)
lemma mask8: "(0xff :: 64 word) = mask 8" by (simp add: mask_eq_exp_minus_1)
lemma mask4: "(0xf :: 64 word) = mask 4" by (simp add: mask_eq_exp_minus_1)

lemma bit_field: "bit (push_bit k (x AND mask m) :: 64 word) n \<longleftrightarrow> k \<le> n \<and> n < 64 \<and> n < k + m \<and> bit x (n - k)"
  by (auto simp add: bit_simps)

lemma bit_field0: "bit (x AND mask m :: 64 word) n \<longleftrightarrow> n < 64 \<and> n < m \<and> bit x n"
  by (auto simp add: bit_simps dest: bit_imp_le_length)

lemma bit_create: "bit (create_lcloud_registers b0 b1 c0 c1 c2 d0 d1) n \<longleftrightarrow>
   (if n < 16 then bit d1 n else if n < 32 then bit d0 (n - 16) else if n < 40 then bit c2 (n - 32)
    else if n < 48 then bit c1 (n - 40) else if n < 56 then bit c0 (n - 48) else if n < 60 then bit b1 (n - 56)
    else if n < 64 then bit b0 (n - 60) else False)"
  unfolding create_lcloud_registers_def Let_def mask16 mask8 mask4 bit_or_iff bit_field bit_field0
  by simp

lemma bit_slice: "bit (drop_bit k x AND mask m :: 64 word) n \<longleftrightarrow> n < 64 \<and> n < m \<and> bit x (n + k)"
  by (auto simp add: bit_simps add.commute dest: bit_imp_le_length)

lemma extract_eq: "extract_lcloud_registers x =
  (drop_bit 60 x AND mask 4, drop_bit 56 x AND mask 4, drop_bit 48 x AND mask 8, drop_bit 40 x AND mask 8,
   drop_bit 32 x AND mask 8, drop_bit 16 x AND mask 16, x AND mask 16)"
  unfolding extract_lcloud_registers_def Let_def mask16 mask8 mask4
  by (simp add: drop_bit_drop_bit)

lemma extract_create: "extract_lcloud_registers (create_lcloud_registers b0 b1 c0 c1 c2 d0 d1)
   = (b0 AND 0xf, b1 AND 0xf, c0 AND 0xff, c1 AND 0xff, c2 AND 0xff, d0 AND 0xffff, d1 AND 0xffff)"
  unfolding extract_eq mask16 mask8 mask4 prod.inject
  by (intro conjI; rule bit_word_eqI; simp add: bit_and_iff bit_drop_bit_eq bit_mask_iff bit_create)

lemma create_extract: "(case extract_lcloud_registers x of (b0,b1,c0,c1,c2,d0,d1) \<Rightarrow> create_lcloud_registers b0 b1 c0 c1 c2 d0 d1) = x"
  unfolding extract_eq prod.case
  by (rule bit_word_eqI) (auto simp add: bit_slice bit_field0 bit_create bit_drop_bit_eq)

lemma field_fits: "m < 63 \<Longrightarrow> (x::64 word) < 2 ^ m \<Longrightarrow> x AND mask m = x"
  by (simp add: less_mask_eq)

lemma field_bound: "m < 63 \<Longrightarrow> (x AND mask m :: 64 word) < 2 ^ m \<and> 0 \<le> sint (x AND mask m)"
proof (rule conjI)
  assume m: "m < 63"
  show "x AND mask m < 2 ^ m" using m by (simp add: and_mask_less')
  have "uint (x AND mask m) = take_bit m (uint x)"
    by (simp add: take_bit_eq_mask [symmetric] unsigned_take_bit_eq)
  moreover have "take_bit m (uint x) < 2 ^ m" by (rule take_bit_int_less_exp)
  moreover have "(2::int) ^ m \<le> 2 ^ 63" using m by (intro power_increasing) simp_all
  ultimately have "uint (x AND mask m) < 2 ^ 63" by linarith
  moreover have "- (2 ^ 63) \<le> uint (x AND mask m)"
    by (rule order_trans [of _ 0]) simp_all
  ultimately have "signed_take_bit 63 (uint (x AND mask m)) = uint (x AND mask m)"
    by (intro signed_take_bit_int_eq_self)
  then have "sint (x AND mask m) = uint (x AND mask m)"
    by (simp add: sint_uint)
  then show "0 \<le> sint (x AND mask m)" by simp
qed


text \<open>Claim C2.  For every tuple of fields within their widths, decoding the encoded frame
  gives the tuple back; and for every 64-bit frame \<open>x\<close>, encoding the decoded fields gives
  \<open>x\<close> back, each decoded field being below \<open>2 ^ width\<close> and, read as a signed
  \<^verbatim>\<open>int64_t\<close>, not negative (masked, never sign-extended).\<close>

theorem codec_round_trip:
  "(b0 < 16 \<and> b1 < 16 \<and> c0 < 256 \<and> c1 < 256 \<and> c2 < 256 \<and> d0 < 65536 \<and> d1 < 65536 \<longrightarrow>
      extract_lcloud_registers (create_lcloud_registers b0 b1 c0 c1 c2 d0 d1)
        = (b0, b1, c0, c1, c2, d0, d1)) \<and>
   (case extract_lcloud_registers x of (e0, e1, f0, f1, f2, g0, g1) \<Rightarrow>
      create_lcloud_registers e0 e1 f0 f1 f2 g0 g1 = x \<and>
      e0 < 16 \<and> e1 < 16 \<and> f0 < 256 \<and> f1 < 256 \<and> f2 < 256 \<and> g0 < 65536 \<and> g1 < 65536 \<and>
      0 \<le> sint e0 \<and> 0 \<le> sint e1 \<and> 0 \<le> sint f0 \<and> 0 \<le> sint f1 \<and> 0 \<le> sint f2 \<and>
      0 \<le> sint g0 \<and> 0 \<le> sint g1)"
proof (intro conjI impI)
  assume "b0 < 16 \<and> b1 < 16 \<and> c0 < 256 \<and> c1 < 256 \<and> c2 < 256 \<and> d0 < 65536 \<and> d1 < 65536"
  then have "b0 AND mask 4 = b0" "b1 AND mask 4 = b1" "c0 AND mask 8 = c0" "c1 AND mask 8 = c1"
    "c2 AND mask 8 = c2" "d0 AND mask 16 = d0" "d1 AND mask 16 = d1"
    by (simp_all add: less_mask_eq)
  then show "extract_lcloud_registers (create_lcloud_registers b0 b1 c0 c1 c2 d0 d1)
        = (b0, b1, c0, c1, c2, d0, d1)"
    by (simp add: extract_create mask4 mask8 mask16)
next
  have c: "create_lcloud_registers (drop_bit 60 x AND mask 4) (drop_bit 56 x AND mask 4)
     (drop_bit 48 x AND mask 8) (drop_bit 40 x AND mask 8) (drop_bit 32 x AND mask 8)
     (drop_bit 16 x AND mask 16) (x AND mask 16) = x"
    using create_extract [of x] by (simp add: extract_eq)
  have b4: "(y AND mask 4 :: 64 word) < 16 \<and> 0 \<le> sint (y AND mask 4)" for y
    using field_bound [of 4 y] by simp
  have b8: "(y AND mask 8 :: 64 word) < 256 \<and> 0 \<le> sint (y AND mask 8)" for y
    using field_bound [of 8 y] by simp
  have b16: "(y AND mask 16 :: 64 word) < 65536 \<and> 0 \<le> sint (y AND mask 16)" for y
    using field_bound [of 16 y] by simp
  show "case extract_lcloud_registers x of (e0, e1, f0, f1, f2, g0, g1) \<Rightarrow>
      create_lcloud_registers e0 e1 f0 f1 f2 g0 g1 = x \<and>
      e0 < 16 \<and> e1 < 16 \<and> f0 < 256 \<and> f1 < 256 \<and> f2 < 256 \<and> g0 < 65536 \<and> g1 < 65536 \<and>
      0 \<le> sint e0 \<and> 0 \<le> sint e1 \<and> 0 \<le> sint f0 \<and> 0 \<le> sint f1 \<and> 0 \<le> sint f2 \<and>
      0 \<le> sint g0 \<and> 0 \<le> sint g1"
    unfolding extract_eq prod.case using c b4 b8 b16 by blast
qed

text \<open>An instance of the statement for claim C2: the tuple \<open>(1, 1, 3, 5, 1, 2, 7)\<close> is within
  the widths and is decoded from its encoding.\<close>

theorem codec_round_trip_witness:
  "((1::int64_t) < 16 \<and> (1::int64_t) < 16 \<and> (3::int64_t) < 256 \<and> (5::int64_t) < 256 \<and> (1::int64_t) < 256
      \<and> (2::int64_t) < 65536 \<and> (7::int64_t) < 65536) \<and>
   extract_lcloud_registers (create_lcloud_registers 1 1 3 5 1 2 7) = (1, 1, 3, 5, 1, 2, 7)"
proof -
  have h: "(1::int64_t) < 16 \<and> (1::int64_t) < 16 \<and> (3::int64_t) < 256 \<and> (5::int64_t) < 256
      \<and> (1::int64_t) < 256 \<and> (2::int64_t) < 65536 \<and> (7::int64_t) < 65536"
    by simp
  from codec_round_trip [of 1 1 3 5 1 2 7 0] h
  have "extract_lcloud_registers (create_lcloud_registers 1 1 3 5 1 2 7) = (1, 1, 3, 5, 1, 2, 7)"
    by blast
  with h show ?thesis by blast
qed


section \<open>Allocator: first fit and exhaustion\<close>

lemma block_at_ok:
  assumes "grid_ok dev" "0 \<le> i" "i < sectors dev" "0 \<le> j" "j < blocks dev"
  shows "\<exists>b. block_at dev i j = Some b"
  using assms
  by (auto simp add: grid_ok_def block_at_def deref_def list_all_iff split: heap_ptr.splits)

lemma alloc_blocks_spec:
  assumes "grid_ok dev" "0 \<le> i" "i < sectors dev" "0 \<le> j"
  shows "(\<exists>j0 b. allocate_block_blocks dev i j = Some (Some j0) \<and> j \<le> j0 \<and> j0 < blocks dev \<and>
            block_at dev i j0 = Some b \<and> used b = 0 \<and>
            (\<forall>j' b'. j \<le> j' \<and> j' < j0 \<longrightarrow> block_at dev i j' = Some b' \<longrightarrow> used b' \<noteq> 0))
       \<or> (allocate_block_blocks dev i j = Some None \<and>
            (\<forall>j' b'. j \<le> j' \<and> j' < blocks dev \<longrightarrow> block_at dev i j' = Some b' \<longrightarrow> used b' \<noteq> 0))"
  using assms
proof (induction dev i j rule: allocate_block_blocks.induct)
  case (1 dev i j)
  show ?case
  proof (cases "j < blocks dev")
    case False
    then show ?thesis by (subst allocate_block_blocks.simps) auto
  next
    case True
    from block_at_ok [OF "1.prems"(1-4) True] obtain b where b: "block_at dev i j = Some b" by blast
    show ?thesis
    proof (cases "used b = 0")
      case u: True
      have "allocate_block_blocks dev i j = Some (Some j)"
        using True b u by (subst allocate_block_blocks.simps) simp
      with True b u show ?thesis by auto
    next
      case u: False
      have eq: "allocate_block_blocks dev i j = allocate_block_blocks dev i (j + 1)"
        using True b u by (subst allocate_block_blocks.simps) simp
      have ih: "(\<exists>j0 b. allocate_block_blocks dev i (j + 1) = Some (Some j0) \<and> j + 1 \<le> j0 \<and> j0 < blocks dev \<and>
            block_at dev i j0 = Some b \<and> used b = 0 \<and>
            (\<forall>j' b'. j + 1 \<le> j' \<and> j' < j0 \<longrightarrow> block_at dev i j' = Some b' \<longrightarrow> used b' \<noteq> 0))
       \<or> (allocate_block_blocks dev i (j + 1) = Some None \<and>
            (\<forall>j' b'. j + 1 \<le> j' \<and> j' < blocks dev \<longrightarrow> block_at dev i j' = Some b' \<longrightarrow> used b' \<noteq> 0))"
        using "1.IH" [OF True b u] "1.prems" by simp
      have step: "\<And>j' b'. j \<le> j' \<Longrightarrow> block_at dev i j' = Some b' \<Longrightarrow> j' = j \<or> j + 1 \<le> j'"
        by auto
      from ih show ?thesis
      proof
        assume "\<exists>j0 b. allocate_block_blocks dev i (j + 1) = Some (Some j0) \<and> j + 1 \<le> j0 \<and> j0 < blocks dev \<and>
            block_at dev i j0 = Some b \<and> used b = 0 \<and>
            (\<forall>j' b'. j + 1 \<le> j' \<and> j' < j0 \<longrightarrow> block_at dev i j' = Some b' \<longrightarrow> used b' \<noteq> 0)"
        then obtain j0 b0 where h: "allocate_block_blocks dev i (j + 1) = Some (Some j0)" "j + 1 \<le> j0"
          "j0 < blocks dev" "block_at dev i j0 = Some b0" "used b0 = 0"
          "\<forall>j' b'. j + 1 \<le> j' \<and> j' < j0 \<longrightarrow> block_at dev i j' = Some b' \<longrightarrow> used b' \<noteq> 0" by blast
        have "\<forall>j' b'. j \<le> j' \<and> j' < j0 \<longrightarrow> block_at dev i j' = Some b' \<longrightarrow> used b' \<noteq> 0"
        proof (intro allI impI)
          fix j' b' assume a: "j \<le> j' \<and> j' < j0" "block_at dev i j' = Some b'"
          show "used b' \<noteq> 0"
          proof (cases "j' = j")
            case True with a b u show ?thesis by simp
          next
            case False
            with a have "j + 1 \<le> j'" by simp
            with a h(6) show ?thesis by blast
          qed
        qed
        with h eq show ?thesis by auto
      next
        assume h: "allocate_block_blocks dev i (j + 1) = Some None \<and>
            (\<forall>j' b'. j + 1 \<le> j' \<and> j' < blocks dev \<longrightarrow> block_at dev i j' = Some b' \<longrightarrow> used b' \<noteq> 0)"
        have "\<forall>j' b'. j \<le> j' \<and> j' < blocks dev \<longrightarrow> block_at dev i j' = Some b' \<longrightarrow> used b' \<noteq> 0"
        proof (intro allI impI)
          fix j' b' assume a: "j \<le> j' \<and> j' < blocks dev" "block_at dev i j' = Some b'"
          show "used b' \<noteq> 0"
          proof (cases "j' = j")
            case True with a b u show ?thesis by simp
          next
            case False
            with a have "j + 1 \<le> j'" by simp
            with a h show ?thesis by blast
          qed
        qed
        with h eq show ?thesis by auto
      qed
    qed
  qed
qed


lemma alloc_sectors_spec:
  assumes "grid_ok dev" "0 \<le> i"
  shows "(\<exists>i0 j0 b. allocate_block_sectors dev i = Some (Some (i0, j0)) \<and> i \<le> i0 \<and> i0 < sectors dev \<and>
            0 \<le> j0 \<and> j0 < blocks dev \<and> block_at dev i0 j0 = Some b \<and> used b = 0 \<and>
            (\<forall>i' j' b'. i \<le> i' \<and> 0 \<le> j' \<and> j' < blocks dev \<and> (i' < i0 \<or> (i' = i0 \<and> j' < j0)) \<longrightarrow>
                 block_at dev i' j' = Some b' \<longrightarrow> used b' \<noteq> 0))
       \<or> (allocate_block_sectors dev i = Some None \<and>
            (\<forall>i' j' b'. i \<le> i' \<and> i' < sectors dev \<and> 0 \<le> j' \<and> j' < blocks dev \<longrightarrow>
                 block_at dev i' j' = Some b' \<longrightarrow> used b' \<noteq> 0))"
  using assms
proof (induction dev i rule: allocate_block_sectors.induct)
  case (1 dev i)
  show ?case
  proof (cases "i < sectors dev")
    case False
    then show ?thesis by (subst allocate_block_sectors.simps) auto
  next
    case True
    from alloc_blocks_spec [OF "1.prems"(1,2) True order_refl]
    show ?thesis
    proof
      assume "\<exists>j0 b. allocate_block_blocks dev i 0 = Some (Some j0) \<and> 0 \<le> j0 \<and> j0 < blocks dev \<and>
            block_at dev i j0 = Some b \<and> used b = 0 \<and>
            (\<forall>j' b'. 0 \<le> j' \<and> j' < j0 \<longrightarrow> block_at dev i j' = Some b' \<longrightarrow> used b' \<noteq> 0)"
      then obtain j0 b where h: "allocate_block_blocks dev i 0 = Some (Some j0)" "0 \<le> j0" "j0 < blocks dev"
        "block_at dev i j0 = Some b" "used b = 0"
        "\<forall>j' b'. 0 \<le> j' \<and> j' < j0 \<longrightarrow> block_at dev i j' = Some b' \<longrightarrow> used b' \<noteq> 0" by blast
      have "allocate_block_sectors dev i = Some (Some (i, j0))"
        using True h(1) by (subst allocate_block_sectors.simps) simp
      moreover have "\<forall>i' j' b'. i \<le> i' \<and> 0 \<le> j' \<and> j' < blocks dev \<and> (i' < i \<or> (i' = i \<and> j' < j0)) \<longrightarrow>
                 block_at dev i' j' = Some b' \<longrightarrow> used b' \<noteq> 0"
        using h(6) by auto
      ultimately show ?thesis using True h by blast
    next
      assume h: "allocate_block_blocks dev i 0 = Some None \<and>
            (\<forall>j' b'. 0 \<le> j' \<and> j' < blocks dev \<longrightarrow> block_at dev i j' = Some b' \<longrightarrow> used b' \<noteq> 0)"
      then have eq: "allocate_block_sectors dev i = allocate_block_sectors dev (i + 1)"
        using True by (subst allocate_block_sectors.simps) simp
      have row: "\<And>j' b'. 0 \<le> j' \<Longrightarrow> j' < blocks dev \<Longrightarrow> block_at dev i j' = Some b' \<Longrightarrow> used b' \<noteq> 0"
        using h by blast
      have ih: "(\<exists>i0 j0 b. allocate_block_sectors dev (i + 1) = Some (Some (i0, j0)) \<and> i + 1 \<le> i0 \<and> i0 < sectors dev \<and>
            0 \<le> j0 \<and> j0 < blocks dev \<and> block_at dev i0 j0 = Some b \<and> used b = 0 \<and>
            (\<forall>i' j' b'. i + 1 \<le> i' \<and> 0 \<le> j' \<and> j' < blocks dev \<and> (i' < i0 \<or> (i' = i0 \<and> j' < j0)) \<longrightarrow>
                 block_at dev i' j' = Some b' \<longrightarrow> used b' \<noteq> 0))
       \<or> (allocate_block_sectors dev (i + 1) = Some None \<and>
            (\<forall>i' j' b'. i + 1 \<le> i' \<and> i' < sectors dev \<and> 0 \<le> j' \<and> j' < blocks dev \<longrightarrow>
                 block_at dev i' j' = Some b' \<longrightarrow> used b' \<noteq> 0))"
        using "1.IH" [OF True] h "1.prems" by simp
      from ih show ?thesis
      proof
        assume "\<exists>i0 j0 b. allocate_block_sectors dev (i + 1) = Some (Some (i0, j0)) \<and> i + 1 \<le> i0 \<and> i0 < sectors dev \<and>
            0 \<le> j0 \<and> j0 < blocks dev \<and> block_at dev i0 j0 = Some b \<and> used b = 0 \<and>
            (\<forall>i' j' b'. i + 1 \<le> i' \<and> 0 \<le> j' \<and> j' < blocks dev \<and> (i' < i0 \<or> (i' = i0 \<and> j' < j0)) \<longrightarrow>
                 block_at dev i' j' = Some b' \<longrightarrow> used b' \<noteq> 0)"
        then obtain i0 j0 b where g: "allocate_block_sectors dev (i + 1) = Some (Some (i0, j0))" "i + 1 \<le> i0"
          "i0 < sectors dev" "0 \<le> j0" "j0 < blocks dev" "block_at dev i0 j0 = Some b" "used b = 0"
          "\<forall>i' j' b'. i + 1 \<le> i' \<and> 0 \<le> j' \<and> j' < blocks dev \<and> (i' < i0 \<or> (i' = i0 \<and> j' < j0)) \<longrightarrow>
                 block_at dev i' j' = Some b' \<longrightarrow> used b' \<noteq> 0" by blast
        have "\<forall>i' j' b'. i \<le> i' \<and> 0 \<le> j' \<and> j' < blocks dev \<and> (i' < i0 \<or> (i' = i0 \<and> j' < j0)) \<longrightarrow>
                 block_at dev i' j' = Some b' \<longrightarrow> used b' \<noteq> 0"
        proof (intro allI impI)
          fix i' j' b'
          assume a: "i \<le> i' \<and> 0 \<le> j' \<and> j' < blocks dev \<and> (i' < i0 \<or> (i' = i0 \<and> j' < j0))"
            and b': "block_at dev i' j' = Some b'"
          show "used b' \<noteq> 0"
          proof (cases "i' = i")
            case True with a b' row show ?thesis by blast
          next
            case False
            with a have "i + 1 \<le> i'" by simp
            with a b' g(8) show ?thesis by blast
          qed
        qed
        with g eq show ?thesis by auto
      next
        assume g: "allocate_block_sectors dev (i + 1) = Some None \<and>
            (\<forall>i' j' b'. i + 1 \<le> i' \<and> i' < sectors dev \<and> 0 \<le> j' \<and> j' < blocks dev \<longrightarrow>
                 block_at dev i' j' = Some b' \<longrightarrow> used b' \<noteq> 0)"
        have "\<forall>i' j' b'. i \<le> i' \<and> i' < sectors dev \<and> 0 \<le> j' \<and> j' < blocks dev \<longrightarrow>
                 block_at dev i' j' = Some b' \<longrightarrow> used b' \<noteq> 0"
        proof (intro allI impI)
          fix i' j' b'
          assume a: "i \<le> i' \<and> i' < sectors dev \<and> 0 \<le> j' \<and> j' < blocks dev"
            and b': "block_at dev i' j' = Some b'"
          show "used b' \<noteq> 0"
          proof (cases "i' = i")
            case True with a b' row show ?thesis by blast
          next
            case False
            with a have "i + 1 \<le> i'" by simp
            with a b' g show ?thesis by blast
          qed
        qed
        with g eq show ?thesis by auto
      qed
    qed
  qed
qed


lemma table_ok_grid:
  assumes "table_ok devs" "0 \<le> d" "d < 16" "d_dev_id (devs (nat d)) \<noteq> - 1"
  shows "grid_ok (devs (nat d))"
proof -
  have "nat d \<in> set [0..<16]" using assms(2,3) by simp
  with assms(1,4) show ?thesis unfolding table_ok_def list_all_iff by blast
qed

lemma alloc_devices_spec:
  assumes "table_ok devs" "0 \<le> did"
  shows "(\<exists>d i j b. allocate_block_devices devs did = Some (Some (d, i, j)) \<and> did \<le> d \<and>
            descriptor devs d i j = Some b \<and> used b = 0 \<and>
            (\<forall>d' i' j' b'. did \<le> d' \<and> visited_before (d', i', j') (d, i, j) \<longrightarrow>
                 descriptor devs d' i' j' = Some b' \<longrightarrow> used b' \<noteq> 0))
       \<or> (allocate_block_devices devs did = Some None \<and>
            (\<forall>d' i' j' b'. did \<le> d' \<longrightarrow> descriptor devs d' i' j' = Some b' \<longrightarrow> used b' \<noteq> 0))"
  using assms
proof (induction devs did rule: allocate_block_devices.induct)
  case (1 devs did)
  let ?dev = "devs (nat did)"
  let ?goal = "\<lambda>k. (\<exists>d i j b. allocate_block_devices devs k = Some (Some (d, i, j)) \<and> k \<le> d \<and>
            descriptor devs d i j = Some b \<and> used b = 0 \<and>
            (\<forall>d' i' j' b'. k \<le> d' \<and> visited_before (d', i', j') (d, i, j) \<longrightarrow>
                 descriptor devs d' i' j' = Some b' \<longrightarrow> used b' \<noteq> 0))
       \<or> (allocate_block_devices devs k = Some None \<and>
            (\<forall>d' i' j' b'. k \<le> d' \<longrightarrow> descriptor devs d' i' j' = Some b' \<longrightarrow> used b' \<noteq> 0))"
  have lift: "?goal did"
    if eq: "allocate_block_devices devs did = allocate_block_devices devs (did + 1)"
      and ih: "?goal (did + 1)"
      and here: "\<And>i' j' b'. descriptor devs did i' j' = Some b' \<Longrightarrow> used b' \<noteq> 0"
  proof -
    from ih show ?thesis
    proof
      assume "\<exists>d i j b. allocate_block_devices devs (did + 1) = Some (Some (d, i, j)) \<and> did + 1 \<le> d \<and>
            descriptor devs d i j = Some b \<and> used b = 0 \<and>
            (\<forall>d' i' j' b'. did + 1 \<le> d' \<and> visited_before (d', i', j') (d, i, j) \<longrightarrow>
                 descriptor devs d' i' j' = Some b' \<longrightarrow> used b' \<noteq> 0)"
      then obtain d i j b where g: "allocate_block_devices devs (did + 1) = Some (Some (d, i, j))"
        "did + 1 \<le> d" "descriptor devs d i j = Some b" "used b = 0"
        "\<forall>d' i' j' b'. did + 1 \<le> d' \<and> visited_before (d', i', j') (d, i, j) \<longrightarrow>
                 descriptor devs d' i' j' = Some b' \<longrightarrow> used b' \<noteq> 0" by blast
      have "\<forall>d' i' j' b'. did \<le> d' \<and> visited_before (d', i', j') (d, i, j) \<longrightarrow>
                 descriptor devs d' i' j' = Some b' \<longrightarrow> used b' \<noteq> 0"
      proof (intro allI impI)
        fix d' i' j' b'
        assume a: "did \<le> d' \<and> visited_before (d', i', j') (d, i, j)"
          and b': "descriptor devs d' i' j' = Some b'"
        show "used b' \<noteq> 0"
        proof (cases "d' = did")
          case True with b' here show ?thesis by blast
        next
          case False
          with a have "did + 1 \<le> d'" by simp
          with a b' g(5) show ?thesis by blast
        qed
      qed
      moreover have "did \<le> d" using g(2) by simp
      ultimately show ?thesis using g eq by auto
    next
      assume g: "allocate_block_devices devs (did + 1) = Some None \<and>
            (\<forall>d' i' j' b'. did + 1 \<le> d' \<longrightarrow> descriptor devs d' i' j' = Some b' \<longrightarrow> used b' \<noteq> 0)"
      have "\<forall>d' i' j' b'. did \<le> d' \<longrightarrow> descriptor devs d' i' j' = Some b' \<longrightarrow> used b' \<noteq> 0"
      proof (intro allI impI)
        fix d' i' j' b'
        assume a: "did \<le> d'" and b': "descriptor devs d' i' j' = Some b'"
        show "used b' \<noteq> 0"
        proof (cases "d' = did")
          case True with b' here show ?thesis by blast
        next
          case False
          with a have "did + 1 \<le> d'" by simp
          with b' g show ?thesis by blast
        qed
      qed
      with g eq show ?thesis by auto
    qed
  qed
  show ?case
  proof (cases "did < 16")
    case False
    then show ?thesis
      by (subst allocate_block_devices.simps) (auto simp add: descriptor_def)
  next
    case True
    show ?thesis
    proof (cases "d_dev_id ?dev \<noteq> - 1")
      case False
      have eq: "allocate_block_devices devs did = allocate_block_devices devs (did + 1)"
        using True False by (subst allocate_block_devices.simps) simp
      have ih: "?goal (did + 1)"
        using "1.IH"(2) [OF True] False "1.prems" by simp
      have here: "\<And>i' j' b'. descriptor devs did i' j' = Some b' \<Longrightarrow> used b' \<noteq> 0"
        using False by (simp add: descriptor_def)
      from lift [OF eq ih here] show ?thesis .
    next
      case p: True
      have g: "grid_ok ?dev" by (rule table_ok_grid [OF "1.prems"(1,2) True p])
      from alloc_sectors_spec [OF g order_refl]
      show ?thesis
      proof
        assume "\<exists>i0 j0 b. allocate_block_sectors ?dev 0 = Some (Some (i0, j0)) \<and> 0 \<le> i0 \<and> i0 < sectors ?dev \<and>
            0 \<le> j0 \<and> j0 < blocks ?dev \<and> block_at ?dev i0 j0 = Some b \<and> used b = 0 \<and>
            (\<forall>i' j' b'. 0 \<le> i' \<and> 0 \<le> j' \<and> j' < blocks ?dev \<and> (i' < i0 \<or> (i' = i0 \<and> j' < j0)) \<longrightarrow>
                 block_at ?dev i' j' = Some b' \<longrightarrow> used b' \<noteq> 0)"
        then obtain i0 j0 b where h: "allocate_block_sectors ?dev 0 = Some (Some (i0, j0))" "0 \<le> i0"
          "i0 < sectors ?dev" "0 \<le> j0" "j0 < blocks ?dev" "block_at ?dev i0 j0 = Some b" "used b = 0"
          "\<forall>i' j' b'. 0 \<le> i' \<and> 0 \<le> j' \<and> j' < blocks ?dev \<and> (i' < i0 \<or> (i' = i0 \<and> j' < j0)) \<longrightarrow>
                 block_at ?dev i' j' = Some b' \<longrightarrow> used b' \<noteq> 0" by blast
        have r: "allocate_block_devices devs did = Some (Some (did, i0, j0))"
          using True p h(1) by (subst allocate_block_devices.simps) simp
        have d: "descriptor devs did i0 j0 = Some b"
          using True p h "1.prems"(2) by (simp add: descriptor_def)
        have "\<forall>d' i' j' b'. did \<le> d' \<and> visited_before (d', i', j') (did, i0, j0) \<longrightarrow>
                 descriptor devs d' i' j' = Some b' \<longrightarrow> used b' \<noteq> 0"
        proof (intro allI impI)
          fix d' i' j' b'
          assume a: "did \<le> d' \<and> visited_before (d', i', j') (did, i0, j0)"
            and b': "descriptor devs d' i' j' = Some b'"
          from a have d': "d' = did" and o: "i' < i0 \<or> (i' = i0 \<and> j' < j0)"
            by (auto simp add: visited_before_def)
          from b' d' have "0 \<le> i' \<and> 0 \<le> j' \<and> j' < blocks ?dev \<and> block_at ?dev i' j' = Some b'"
            by (simp add: descriptor_def split: if_splits)
          with o h(8) show "used b' \<noteq> 0" by blast
        qed
        with r d h(7) show ?thesis by auto
      next
        assume h: "allocate_block_sectors ?dev 0 = Some None \<and>
            (\<forall>i' j' b'. 0 \<le> i' \<and> i' < sectors ?dev \<and> 0 \<le> j' \<and> j' < blocks ?dev \<longrightarrow>
                 block_at ?dev i' j' = Some b' \<longrightarrow> used b' \<noteq> 0)"
        have eq: "allocate_block_devices devs did = allocate_block_devices devs (did + 1)"
          using True p h by (subst allocate_block_devices.simps) simp
        have ih: "?goal (did + 1)"
          using "1.IH"(1) [OF True p] h "1.prems" by simp
        have here: "\<And>i' j' b'. descriptor devs did i' j' = Some b' \<Longrightarrow> used b' \<noteq> 0"
          using h by (auto simp add: descriptor_def split: if_splits)
        from lift [OF eq ih here] show ?thesis .
      qed
    qed
  qed
qed


lemma block_update_ok:
  assumes "block_at dev i j = Some b"
  shows "\<exists>dev'. block_update dev i j f = Some dev' \<and> block_at dev' i j = Some (f b) \<and>
     (\<forall>i' j'. (i', j') \<noteq> (i, j) \<longrightarrow> block_at dev' i' j' = block_at dev i' j') \<and>
     sectors dev' = sectors dev \<and> blocks dev' = blocks dev \<and> d_dev_id dev' = d_dev_id dev \<and>
     (grid_ok dev \<longrightarrow> grid_ok dev')"
proof -
  from assms obtain rows where l: "sector_block dev = Live rows" and i: "0 \<le> i" "nat i < length rows"
    and j: "0 \<le> j" "nat j < length (rows ! nat i)" and b: "b = rows ! nat i ! nat j"
    by (auto simp add: block_at_def deref_def split: heap_ptr.splits if_splits)
  let ?rows = "rows[nat i := (rows ! nat i)[nat j := f b]]"
  let ?dev = "dev\<lparr>sector_block := Live ?rows\<rparr>"
  have u: "block_update dev i j f = Some ?dev"
    using l i j b by (simp add: block_update_def deref_def store_def)
  have a: "block_at ?dev i j = Some (f b)"
    using i j by (simp add: block_at_def deref_def)
  have o: "block_at ?dev i' j' = block_at dev i' j'" if "(i', j') \<noteq> (i, j)" for i' j'
  proof (cases "i' = i")
    case True
    with that have "j' \<noteq> j" by simp
    then have "0 \<le> j' \<Longrightarrow> nat j' \<noteq> nat j" using j by simp
    with True l i j show ?thesis by (auto simp add: block_at_def deref_def)
  next
    case False
    then have "0 \<le> i' \<Longrightarrow> nat i' \<noteq> nat i" using i by simp
    with l show ?thesis by (auto simp add: block_at_def deref_def)
  qed
  have g: "grid_ok ?dev" if "grid_ok dev"
    using that l i j by (auto simp add: grid_ok_def list_all_iff dest!: set_update_subset_insert [THEN subsetD])
  from u a o g show ?thesis by auto
qed


text \<open>Claim C9.  On a well-formed device table \<^verbatim>\<open>allocate_block\<close> either returns a
  descriptor \<open>(d, i, j)\<close> of a present device whose used flag is 0, every descriptor visited
  before it (lower device, then lower sector, then lower block) having a used flag other than
  0, and sets the used flag of that descriptor to 1, every other descriptor keeping its
  value, links included; or it fails (returns \<^verbatim>\<open>-1\<close>) with the table unchanged, and then the
  used flag of every descriptor of every present device is set.  So it fails exactly when
  all descriptors are used.\<close>

theorem allocate_block_first_fit:
  assumes "table_ok devs"
  shows "(\<exists>devs' d i j b. allocate_block devs = Some (devs', Some (d, i, j)) \<and>
            descriptor devs d i j = Some b \<and> used b = 0 \<and>
            (\<forall>d' i' j' b'. visited_before (d', i', j') (d, i, j) \<longrightarrow>
                 descriptor devs d' i' j' = Some b' \<longrightarrow> used b' \<noteq> 0) \<and>
            descriptor devs' d i j = Some (b\<lparr>used := 1\<rparr>) \<and>
            (\<forall>d' i' j'. (d', i', j') \<noteq> (d, i, j) \<longrightarrow>
                 descriptor devs' d' i' j' = descriptor devs d' i' j') \<and>
            table_ok devs')
       \<or> (allocate_block devs = Some (devs, None) \<and>
            (\<forall>d i j b. descriptor devs d i j = Some b \<longrightarrow> used b \<noteq> 0))"
proof -
  from alloc_devices_spec [OF assms order_refl] show ?thesis
  proof
    assume "\<exists>d i j b. allocate_block_devices devs 0 = Some (Some (d, i, j)) \<and> 0 \<le> d \<and>
            descriptor devs d i j = Some b \<and> used b = 0 \<and>
            (\<forall>d' i' j' b'. 0 \<le> d' \<and> visited_before (d', i', j') (d, i, j) \<longrightarrow>
                 descriptor devs d' i' j' = Some b' \<longrightarrow> used b' \<noteq> 0)"
    then obtain d i j b where h: "allocate_block_devices devs 0 = Some (Some (d, i, j))" "0 \<le> d"
      "descriptor devs d i j = Some b" "used b = 0"
      "\<forall>d' i' j' b'. 0 \<le> d' \<and> visited_before (d', i', j') (d, i, j) \<longrightarrow>
                 descriptor devs d' i' j' = Some b' \<longrightarrow> used b' \<noteq> 0" by blast
    let ?dev = "devs (nat d)"
    from h(3) have r: "d < 16" "d_dev_id ?dev \<noteq> - 1" "0 \<le> i" "i < sectors ?dev" "0 \<le> j"
      "j < blocks ?dev" "block_at ?dev i j = Some b"
      by (simp_all add: descriptor_def split: if_splits)
    from block_update_ok [OF r(7), of "\<lambda>b. b\<lparr>used := 1\<rparr>"]
    obtain dev' where u: "block_update ?dev i j (\<lambda>b. b\<lparr>used := 1\<rparr>) = Some dev'"
      "block_at dev' i j = Some (b\<lparr>used := 1\<rparr>)"
      "\<forall>i' j'. (i', j') \<noteq> (i, j) \<longrightarrow> block_at dev' i' j' = block_at ?dev i' j'"
      "sectors dev' = sectors ?dev" "blocks dev' = blocks ?dev" "d_dev_id dev' = d_dev_id ?dev"
      "grid_ok ?dev \<longrightarrow> grid_ok dev'" by blast
    let ?devs = "devs(nat d := dev')"
    have a: "allocate_block devs = Some (?devs, Some (d, i, j))"
      using h(1) u(1) by (simp add: allocate_block_def)
    have e: "\<forall>d' i' j' b'. visited_before (d', i', j') (d, i, j) \<longrightarrow>
                 descriptor devs d' i' j' = Some b' \<longrightarrow> used b' \<noteq> 0"
    proof (intro allI impI)
      fix d' i' j' b'
      assume v: "visited_before (d', i', j') (d, i, j)" and b': "descriptor devs d' i' j' = Some b'"
      from b' have "0 \<le> d'" by (simp add: descriptor_def split: if_splits)
      with v b' h(5) show "used b' \<noteq> 0" by blast
    qed
    have n: "descriptor ?devs d i j = Some (b\<lparr>used := 1\<rparr>)"
      using h(2) r u by (simp add: descriptor_def)
    have o: "\<forall>d' i' j'. (d', i', j') \<noteq> (d, i, j) \<longrightarrow> descriptor ?devs d' i' j' = descriptor devs d' i' j'"
    proof (intro allI impI)
      fix d' i' j'
      assume ne: "(d', i', j') \<noteq> (d, i, j)"
      show "descriptor ?devs d' i' j' = descriptor devs d' i' j'"
      proof (cases "d' = d")
        case True
        with ne have "(i', j') \<noteq> (i, j)" by simp
        with u True show ?thesis by (simp add: descriptor_def)
      next
        case False
        then have "0 \<le> d' \<Longrightarrow> nat d' \<noteq> nat d" using h(2) by simp
        then show ?thesis by (auto simp add: descriptor_def)
      qed
    qed
    have g: "grid_ok dev'" using u(7) table_ok_grid [OF assms h(2) r(1,2)] by simp
    have t: "table_ok ?devs"
      using assms g unfolding table_ok_def list_all_iff by simp
    from a h(3,4) e n o t show ?thesis by blast
  next
    assume h: "allocate_block_devices devs 0 = Some None \<and>
            (\<forall>d' i' j' b'. 0 \<le> d' \<longrightarrow> descriptor devs d' i' j' = Some b' \<longrightarrow> used b' \<noteq> 0)"
    then have a: "allocate_block devs = Some (devs, None)" by (simp add: allocate_block_def)
    have "\<forall>d i j b. descriptor devs d i j = Some b \<longrightarrow> used b \<noteq> 0"
    proof (intro allI impI)
      fix d i j b
      assume b: "descriptor devs d i j = Some b"
      then have "0 \<le> d" by (simp add: descriptor_def split: if_splits)
      with b h show "used b \<noteq> 0" by blast
    qed
    with a show ?thesis by blast
  qed
qed

text \<open>An instance of the statement for claim C9: in the example table, whose first descriptor
  is used, \<^verbatim>\<open>allocate_block\<close> returns the second descriptor and sets its flag alone.\<close>

theorem allocate_block_first_fit_witness:
  "table_ok example_table \<and>
   (\<exists>devs'. allocate_block example_table = Some (devs', Some (0, 0, 1)) \<and>
      visited_before (0, 0, 0) (0, 0, 1) \<and>
      descriptor example_table 0 0 0
        = Some \<lparr>next_sector = - 1, next_block = - 1, next_dev_id = - 1, used = 1\<rparr> \<and>
      descriptor devs' 0 0 1
        = Some \<lparr>next_sector = - 1, next_block = - 1, next_dev_id = - 1, used = 1\<rparr> \<and>
      descriptor devs' 0 0 0 = descriptor example_table 0 0 0)"
proof -
  have h: "table_ok example_table"
    by (simp add: table_ok_def example_table_def grid_ok_def list_all_iff)
  have e: "\<exists>devs'. allocate_block example_table = Some (devs', Some (0, 0, 1))"
    by (simp add: allocate_block_def example_table_def block_at_def deref_def block_update_def
        store_def)
  have d: "descriptor example_table 0 0 1
        = Some \<lparr>next_sector = - 1, next_block = - 1, next_dev_id = - 1, used = 0\<rparr>"
    "descriptor example_table 0 0 0
        = Some \<lparr>next_sector = - 1, next_block = - 1, next_dev_id = - 1, used = 1\<rparr>"
    by (simp_all add: descriptor_def example_table_def block_at_def deref_def)
  have v: "visited_before (0, 0, 0) (0, 0, 1)"
    by (simp add: visited_before_def)
  from allocate_block_first_fit [OF h] e d v h show ?thesis
    by auto
qed


section \<open>Seek bounds\<close>

lemma uint_of_sint64:
  "uint (w :: 64 word) = (if 0 \<le> sint w then sint w else sint w + 2 ^ 64)"
proof -
  have u: "uint w = sint w mod 2 ^ 64"
    using uint_sint [of w] by (simp add: take_bit_eq_mod)
  have b: "- (2 ^ 63) \<le> sint w" "sint w < 2 ^ 63"
    using sint_ge [of w] sint_less [of w] by simp_all
  show ?thesis
  proof (cases "0 \<le> sint w")
    case True
    with b have "sint w mod 2 ^ 64 = sint w" by (intro mod_pos_pos_trivial) simp_all
    with u True show ?thesis by simp
  next
    case False
    with b have "(sint w + 2 ^ 64) mod 2 ^ 64 = sint w + 2 ^ 64"
      by (intro mod_pos_pos_trivial) simp_all
    moreover have "(sint w + 2 ^ 64) mod 2 ^ 64 = sint w mod 2 ^ 64" by simp
    ultimately show ?thesis using u False by simp
  qed
qed

lemma seek_compare:
  assumes "0 \<le> s" "s < 2 ^ 31"
  shows "(off :: 64 word) > word_of_int s \<longleftrightarrow> sint off < 0 \<or> s < sint off"
proof -
  have "uint (word_of_int s :: 64 word) = s"
    using assms by (simp add: uint_word_of_int_eq take_bit_int_eq_self)
  then have "off > word_of_int s \<longleftrightarrow> s < uint off" by (simp add: word_less_def)
  also have "\<dots> \<longleftrightarrow> sint off < 0 \<or> s < sint off"
    using assms sint_ge [of off] by (auto simp add: uint_of_sint64)
  finally show ?thesis .
qed

lemma seek_pos:
  assumes "0 \<le> sint (off :: 64 word)" "sint off < 2 ^ 31"
  shows "sint (ucast off :: 32 word) = sint off"
proof -
  have u: "uint off = sint off" using assms by (simp add: uint_of_sint64)
  have "sint (ucast off :: 32 word) = signed_take_bit 31 (uint off)"
    by (simp add: signed_ucast_eq)
  also have "\<dots> = uint off"
    using assms u by (intro signed_take_bit_int_eq_self) simp_all
  finally show ?thesis using u by simp
qed

text \<open>Claim C7.  For an open file (a handle that \<^verbatim>\<open>validate_fh\<close> accepts) whose size is a
  non-negative \<^verbatim>\<open>int\<close>, \<^verbatim>\<open>lcseek\<close> with an offset that is negative as a signed number, or
  greater than the size, returns \<^verbatim>\<open>-1\<close> and leaves the whole state, the position with it,
  unchanged; with every other offset, the size itself included, it sets the position of the
  file to the offset and returns the offset.\<close>

theorem lcseek_bounds:
  assumes "validate_fh st fh = Some (Some file)" and "0 \<le> f_size file" and "f_size file < 2 ^ 31"
  shows "lcseek st fh off =
     (if sint off < 0 \<or> f_size file < sint off then Some (st, - 1)
      else Some (st\<lparr>files := (files st)(nat fh := file\<lparr>f_pos := sint off\<rparr>)\<rparr>, sint off))"
proof (cases "sint off < 0 \<or> f_size file < sint off")
  case True
  then have "off > word_of_int (f_size file)" using seek_compare [OF assms(2,3)] by simp
  with True assms(1) show ?thesis by (simp add: lcseek_def)
next
  case False
  then have n: "\<not> off > word_of_int (f_size file)" using seek_compare [OF assms(2,3)] by simp
  from False assms(3) have "sint (ucast off :: 32 word) = sint off"
    by (intro seek_pos) simp_all
  with False n assms(1) show ?thesis by (simp add: lcseek_def Let_def)
qed

text \<open>An instance of the statement for claim C7: on an open file of 10 bytes a seek to \<open>- 1\<close>
  and a seek to 11 fail and leave the state as it is, and a seek to 10 sets the position to
  10 and returns 10.\<close>

theorem lcseek_bounds_witness:
  "validate_fh example_seek_state 0 = Some (Some example_open_file) \<and>
   0 \<le> f_size example_open_file \<and> f_size example_open_file < 2 ^ 31 \<and>
   lcseek example_seek_state 0 (- 1) = Some (example_seek_state, - 1) \<and>
   lcseek example_seek_state 0 11 = Some (example_seek_state, - 1) \<and>
   lcseek example_seek_state 0 10 =
     Some (example_seek_state\<lparr>files := (files example_seek_state)
             (0 := example_open_file\<lparr>f_pos := 10\<rparr>)\<rparr>, 10)"
proof -
  have v: "validate_fh example_seek_state 0 = Some (Some example_open_file)"
    by (simp add: validate_fh_def example_seek_state_def example_open_file_def fs_startup_def)
  have s: "0 \<le> f_size example_open_file" "f_size example_open_file < 2 ^ 31"
    by (simp_all add: example_open_file_def)
  have z: "f_size example_open_file = 10" by (simp add: example_open_file_def)
  from lcseek_bounds [OF v s, of "- 1"] lcseek_bounds [OF v s, of 11] lcseek_bounds [OF v s, of 10]
    v s z
  show ?thesis by simp
qed



section \<open>Cache: statistics and eviction\<close>

lemma getcache_counters:
  assumes "lcloud_getcache c did sec blk = Some (c1, r)"
  shows "hits c1 = hits c + (if r = None then 0 else 1) \<and>
         misses c1 = misses c + (if r = None then 1 else 0) \<and> cache_log c1 = cache_log c"
  using assms
  by (auto simp add: lcloud_getcache_def Let_def simp del: getcache_scan.simps
      split: option.splits if_splits)

lemma cache_lookups_counters:
  assumes "cache_lookups c keys = Some (c1, H)"
  shows "H \<le> length keys \<and> hits c1 = hits c + int H \<and>
         misses c1 = misses c + (int (length keys) - int H) \<and> cache_log c1 = cache_log c"
  using assms
proof (induction keys arbitrary: c H)
  case Nil
  then show ?case by simp
next
  case (Cons k keys)
  obtain did sec blk where k: "k = (did, sec, blk)" by (cases k) auto
  from Cons.prems k obtain c' r h where g: "lcloud_getcache c did sec blk = Some (c', r)"
    and l: "cache_lookups c' keys = Some (c1, h)" and H: "H = (if r = None then 0 else 1) + h"
    by (auto split: option.splits)
  from Cons.IH [OF l] getcache_counters [OF g] H show ?case by auto
qed

lemma bit_length_bounds:
  "0 < n \<Longrightarrow> 0 < bit_length n \<and> 2 ^ nat (bit_length n - 1) \<le> n \<and> n < 2 ^ nat (bit_length n)"
proof (induction n rule: bit_length.induct)
  case (1 n)
  show ?case
  proof (cases "n div 2 = 0")
    case True
    with 1(2) have n: "n = 1" by presburger
    have "bit_length 1 = 1" by (simp add: bit_length.simps [of 1] bit_length.simps [of 0])
    with n show ?thesis by simp
  next
    case False
    with 1(2) have p: "0 < n div 2" by presburger
    from 1(1) 1(2) p have ih: "0 < bit_length (n div 2)"
      "2 ^ nat (bit_length (n div 2) - 1) \<le> n div 2" "n div 2 < 2 ^ nat (bit_length (n div 2))"
      by simp_all
    from 1(2) have b: "bit_length n = bit_length (n div 2) + 1" by (simp add: bit_length.simps [of n])
    from ih(1) have e: "nat (bit_length (n div 2)) = Suc (nat (bit_length (n div 2) - 1))" by simp
    have "2 * 2 ^ nat (bit_length (n div 2) - 1) \<le> 2 * (n div 2)" using ih(2) by simp
    also have "\<dots> \<le> n" by presburger
    finally have l: "2 ^ nat (bit_length (n div 2)) \<le> n" using e by simp
    have "n < 2 * (n div 2) + 2" by presburger
    also have "\<dots> \<le> 2 * 2 ^ nat (bit_length (n div 2))" using ih(3) by simp
    finally have u: "n < 2 ^ Suc (nat (bit_length (n div 2)))" by simp
    from ih(1) have "nat (bit_length (n div 2) + 1) = Suc (nat (bit_length (n div 2)))" by simp
    with b l u ih(1) show ?thesis by simp
  qed
qed

text \<open>The exponent that \<open>floor_log2\<close> gives is the binary exponent of the number, and
  \<open>round_half_even\<close> moves a number by a half at most.\<close>

lemma pow2_powi: "pow2 k = 2 powi k"
proof (cases "0 \<le> k")
  case True
  then show ?thesis by (simp add: pow2_def power_int_def)
next
  case False
  then have "pow2 k = 1 / 2 ^ nat (- k)" by (simp add: pow2_def)
  also have "\<dots> = inverse (2 ^ nat (- k))" by (rule inverse_eq_divide [symmetric])
  also have "\<dots> = inverse 2 ^ nat (- k)" by (rule power_inverse [symmetric])
  also have "\<dots> = 2 powi k" using False by (simp only: power_int_def if_False)
  finally show ?thesis .
qed

lemma floor_log2_bounds:
  assumes "0 < x"
  shows "pow2 (floor_log2 x) \<le> x \<and> x < pow2 (floor_log2 x + 1)"
proof -
  obtain p q where pq: "quotient_of x = (p, q)" by (cases "quotient_of x") auto
  from quotient_of_denom_pos [OF pq] have q: "0 < q" .
  from quotient_of_div [OF pq] have x: "x = of_int p / of_int q" .
  from assms x q have p: "0 < p" by (simp add: zero_less_divide_iff)
  let ?bp = "bit_length p" and ?bq = "bit_length q"
  from bit_length_bounds [OF p] have bp: "0 < ?bp" "2 ^ nat (?bp - 1) \<le> p" "p < 2 ^ nat ?bp"
    by simp_all
  from bit_length_bounds [OF q] have bq: "0 < ?bq" "2 ^ nat (?bq - 1) \<le> q" "q < 2 ^ nat ?bq"
    by simp_all
  have rp: "pow2 (?bp - 1) \<le> of_int p" "(of_int p :: rat) < pow2 ?bp"
  proof -
    from bp(2) have "(of_int (2 ^ nat (?bp - 1)) :: rat) \<le> of_int p" by (simp only: of_int_le_iff)
    then show "pow2 (?bp - 1) \<le> of_int p" using bp(1) by (simp add: pow2_def)
    from bp(3) have "(of_int p :: rat) < of_int (2 ^ nat ?bp)" by (simp only: of_int_less_iff)
    then show "(of_int p :: rat) < pow2 ?bp" using bp(1) by (simp add: pow2_def)
  qed
  have rq: "pow2 (?bq - 1) \<le> of_int q" "(of_int q :: rat) < pow2 ?bq"
  proof -
    from bq(2) have "(of_int (2 ^ nat (?bq - 1)) :: rat) \<le> of_int q" by (simp only: of_int_le_iff)
    then show "pow2 (?bq - 1) \<le> of_int q" using bq(1) by (simp add: pow2_def)
    from bq(3) have "(of_int q :: rat) < of_int (2 ^ nat ?bq)" by (simp only: of_int_less_iff)
    then show "(of_int q :: rat) < pow2 ?bq" using bq(1) by (simp add: pow2_def)
  qed
  have pos: "\<And>k. (0::rat) < pow2 k" by (simp add: pow2_powi)
  have qp: "(0::rat) < of_int q" "(0::rat) < of_int p" using p q by simp_all
  have up: "x < pow2 (?bp - ?bq + 1)"
  proof -
    have "x < pow2 ?bp / pow2 (?bq - 1)"
      unfolding x using rp(2) rq(1) qp pos [of "?bq - 1"]
      by (intro frac_less) simp_all
    also have "\<dots> = 2 powi (?bp - (?bq - 1))"
      unfolding pow2_powi by (rule power_int_diff [symmetric]) simp
    also have "?bp - (?bq - 1) = ?bp - ?bq + 1" by simp
    finally show ?thesis by (simp only: pow2_powi)
  qed
  have lo: "pow2 (?bp - ?bq - 1) \<le> x"
  proof -
    have "pow2 (?bp - 1) / pow2 ?bq \<le> x"
      unfolding x using rp(1) rq(2) qp pos [of "?bp - 1"] pos [of ?bq]
      by (intro frac_le) simp_all
    moreover have "pow2 (?bp - 1) / pow2 ?bq = 2 powi (?bp - 1 - ?bq)"
      unfolding pow2_powi by (rule power_int_diff [symmetric]) simp
    moreover have "?bp - 1 - ?bq = ?bp - ?bq - 1" by simp
    ultimately show ?thesis by (simp only: pow2_powi)
  qed
  show ?thesis
  proof (cases "pow2 (?bp - ?bq) \<le> x")
    case True
    then have "floor_log2 x = ?bp - ?bq" by (simp add: floor_log2_def pq Let_def)
    with True up show ?thesis by simp
  next
    case False
    then have "floor_log2 x = ?bp - ?bq - 1" by (simp add: floor_log2_def pq Let_def)
    with False lo show ?thesis by simp
  qed
qed

lemma round_half_even_near: "\<bar>of_int (round_half_even x) - x\<bar> \<le> 1 / 2"
proof -
  let ?f = "\<lfloor>x\<rfloor>"
  let ?d = "x - of_int ?f"
  have d: "0 \<le> ?d" "?d < 1" by linarith+
  show ?thesis
  proof (cases "?d < 1 / 2")
    case True
    then have "round_half_even x = ?f" by (simp add: round_half_even_def Let_def)
    with True d show ?thesis by simp
  next
    case False
    show ?thesis
    proof (cases "1 / 2 < ?d")
      case True
      with False have "round_half_even x = ?f + 1" by (simp add: round_half_even_def Let_def)
      with True d show ?thesis by simp
    next
      case h: False
      with False have e: "?d = 1 / 2" by simp
      then have "round_half_even x = ?f \<or> round_half_even x = ?f + 1"
        by (simp add: round_half_even_def Let_def)
      with e show ?thesis by auto
    qed
  qed
qed

lemma floor_log2_int:
  assumes "0 < n"
  shows "floor_log2 (of_int n) = bit_length n - 1"
proof -
  have o: "bit_length 1 = 1" by (simp add: bit_length.simps [of 1] bit_length.simps [of 0])
  from bit_length_bounds [OF assms] have b: "0 < bit_length n" "2 ^ nat (bit_length n - 1) \<le> n"
    by simp_all
  from b(2) have "(of_int (2 ^ nat (bit_length n - 1)) :: rat) \<le> of_int n"
    by (simp only: of_int_le_iff)
  then have "pow2 (bit_length n - 1) \<le> of_int n" using b(1) by (simp add: pow2_def)
  then show ?thesis by (simp add: floor_log2_def o Let_def)
qed

lemma round_half_even_int: "round_half_even (of_int m) = m"
  by (simp add: round_half_even_def Let_def)

lemma int_to_float_exact:
  assumes "0 \<le> n" "n < 2 ^ 24"
  shows "int_to_float n = FNum (of_int n)"
proof (cases "n = 0")
  case True
  then show ?thesis by (simp add: int_to_float_def round_to_float_def)
next
  case False
  with assms have p: "0 < n" by simp
  let ?e = "bit_length n - 1"
  from bit_length_bounds [OF p] have b: "0 < bit_length n" "2 ^ nat ?e \<le> n" by simp_all
  from b(2) assms(2) have "(2::int) ^ nat ?e < 2 ^ 24" by simp
  then have "nat ?e < 24" by (simp only: power_strict_increasing_iff) 
  with b(1) have e: "0 \<le> ?e" "?e \<le> 23" by simp_all
  let ?k = "nat (23 - ?e)"
  have q: "pow2 (?e - 23) = 1 / 2 ^ ?k"
  proof (cases "?e = 23")
    case True
    then show ?thesis by (simp add: pow2_def)
  next
    case False
    with e have "?e - 23 < 0" by simp
    then have "pow2 (?e - 23) = 1 / 2 ^ nat (- (?e - 23))" by (simp add: pow2_def)
    moreover have "nat (- (?e - 23)) = ?k" by simp
    ultimately show ?thesis by simp
  qed
  have m: "max ?e (- 126) = ?e" using e by simp
  have a: "\<bar>of_int n :: rat\<bar> = of_int n" using p by simp
  have d: "(of_int n :: rat) / (1 / 2 ^ ?k) = of_int (n * 2 ^ ?k)" by simp
  have "of_int (round_half_even ((of_int n :: rat) / pow2 (?e - 23))) * pow2 (?e - 23)
      = (of_int (n * 2 ^ ?k) :: rat) * (1 / 2 ^ ?k)"
    by (simp only: q d round_half_even_int)
  then have y: "of_int (round_half_even ((of_int n :: rat) / pow2 (?e - 23))) * pow2 (?e - 23)
      = of_int n"
    by simp
  have "(of_int n :: rat) < of_int (2 ^ 128)" using assms(2) by (simp only: of_int_less_iff) simp
  then have l: "\<not> pow2 128 \<le> (of_int n :: rat)" by (simp add: pow2_def)
  have z: "(of_int n :: rat) \<noteq> 0" "(0::rat) < of_int n" using p by simp_all
  show ?thesis
    unfolding int_to_float_def round_to_float_def floor_log2_int [OF p] a Let_def m y
    using l z by simp
qed

lemma float_div_exact:
  assumes "0 < k"
  shows "float_div (FNum h) (FNum k) = round_to_float (h / k)"
  using assms
  by (simp add: float_div_def float_is_inf_def float_is_zero_def float_value_def float_negative_def
      round_to_float_def Let_def)

lemma hit_ratio_rounds:
  assumes "hits c = h" "hits c + misses c = t" "0 \<le> h" "0 < t" "h < 2 ^ 24" "t < 2 ^ 24"
  shows "hit_ratio c = round_to_float (Fract h t)"
proof -
  have "(0::rat) < of_int t" using assms(4) by (simp only: of_int_0_less_iff)
  from float_div_exact [OF this, of "of_int h"]
  have "float_div (FNum (of_int h)) (FNum (of_int t)) = round_to_float (Fract h t)"
    by (simp add: Fract_of_int_quotient)
  moreover have "int_to_float h = FNum (of_int h)" using assms(3,5) by (rule int_to_float_exact)
  moreover have "0 \<le> t" using assms(4) by simp
  then have "int_to_float t = FNum (of_int t)" using assms(6) by (rule int_to_float_exact)
  ultimately have e: "float_div (int_to_float h) (int_to_float t) = round_to_float (Fract h t)"
    by simp
  have "hit_ratio c = float_div (int_to_float (hits c)) (int_to_float t)"
    unfolding hit_ratio_def by (simp only: assms(2))
  also have "\<dots> = float_div (int_to_float h) (int_to_float t)" by (simp only: assms(1))
  also note e
  finally show ?thesis .
qed

text \<open>Claim C8, as amended.  After \<open>K\<close> lookups of which \<open>H\<close> hit, \<^verbatim>\<open>lcloud_closecache\<close> logs
  the hit count and the miss count, each grown by \<open>H\<close> and by \<open>K - H\<close>, and the quotient
  \<^verbatim>\<open>(float)hits / (hits + misses)\<close>, a division of floats that it computes whatever the
  counters are.  With counters that started at zero: after no lookup at all the quotient is
  that of 0 by 0, which is not a number and does not trap; after \<open>K\<close> lookups, \<open>K\<close> positive
  and below \<open>2 ^ 24\<close>, it is \<open>H / K\<close> rounded to the nearest float.\<close>

theorem closecache_statistics:
  assumes "cache_lookups c keys = Some (c1, H)" and "lcloud_closecache c1 = Some (c2, r)"
  shows "H \<le> length keys \<and> r = 0 \<and>
     cache_log c2 =
       (hits c + int H, misses c + (int (length keys) - int H),
        float_div (int_to_float (hits c + int H))
          (int_to_float (hits c + misses c + int (length keys)))) # cache_log c \<and>
     (hits c = 0 \<and> misses c = 0 \<and> keys = [] \<longrightarrow>
        float_div (int_to_float (hits c + int H))
          (int_to_float (hits c + misses c + int (length keys))) = FNaN) \<and>
     (hits c = 0 \<and> misses c = 0 \<and> keys \<noteq> [] \<and> length keys < 2 ^ 24 \<longrightarrow>
        float_div (int_to_float (hits c + int H))
          (int_to_float (hits c + misses c + int (length keys)))
          = round_to_float (Fract (int H) (int (length keys))))"
proof -
  from cache_lookups_counters [OF assms(1)]
  have c: "H \<le> length keys" "hits c1 = hits c + int H"
    "misses c1 = misses c + (int (length keys) - int H)" "cache_log c1 = cache_log c" by simp_all
  from assms(2) have l: "r = 0 \<and> cache_log c2 = (hits c1, misses c1, hit_ratio c1) # cache_log c1"
    by (auto simp add: lcloud_closecache_def split: heap_ptr.splits if_splits)
  have s: "hits c1 + misses c1 = hits c + misses c + int (length keys)" using c by simp
  have h: "hit_ratio c1 = float_div (int_to_float (hits c + int H))
          (int_to_float (hits c + misses c + int (length keys)))"
    unfolding hit_ratio_def s by (simp only: c(2))
  have 1: "hits c = 0 \<and> misses c = 0 \<and> keys = [] \<longrightarrow> hit_ratio c1 = FNaN"
  proof
    assume z: "hits c = 0 \<and> misses c = 0 \<and> keys = []"
    with c(1) have "H = 0" by simp
    with h z have "hit_ratio c1 = float_div (int_to_float 0) (int_to_float 0)" by simp
    moreover have "float_div (int_to_float 0) (int_to_float 0) = FNaN"
      by (simp add: float_div_def int_to_float_def round_to_float_def
          float_is_zero_def float_is_inf_def)
    ultimately show "hit_ratio c1 = FNaN" by (rule trans)
  qed
  have 2: "hits c = 0 \<and> misses c = 0 \<and> keys \<noteq> [] \<and> length keys < 2 ^ 24 \<longrightarrow>
      hit_ratio c1 = round_to_float (Fract (int H) (int (length keys)))"
  proof
    assume z: "hits c = 0 \<and> misses c = 0 \<and> keys \<noteq> [] \<and> length keys < 2 ^ 24"
    with c(2) s have v: "hits c1 = int H" "hits c1 + misses c1 = int (length keys)" by simp_all
    from z have k: "int (length keys) < 2 ^ 24" by (simp only: of_nat_less_numeral_power_cancel_iff)
    from z have p: "0 < int (length keys)" by simp
    from c(1) have "int H \<le> int (length keys)" by simp
    from this k have g: "int H < 2 ^ 24" by (rule le_less_trans)
    have n: "0 \<le> int H" by simp
    show "hit_ratio c1 = round_to_float (Fract (int H) (int (length keys)))"
      by (rule hit_ratio_rounds [OF v n p g k])
  qed
  from l have l1: "r = 0" and l2: "cache_log c2 = (hits c1, misses c1, hit_ratio c1) # cache_log c1"
    by simp_all
  from l2 have l3: "cache_log c2 =
       (hits c + int H, misses c + (int (length keys) - int H),
        float_div (int_to_float (hits c + int H))
          (int_to_float (hits c + misses c + int (length keys)))) # cache_log c"
    by (simp only: c(2,3,4) h)
  from 1 have 3: "hits c = 0 \<and> misses c = 0 \<and> keys = [] \<longrightarrow>
        float_div (int_to_float (hits c + int H))
          (int_to_float (hits c + misses c + int (length keys))) = FNaN"
    by (simp only: h)
  from 2 have 4: "hits c = 0 \<and> misses c = 0 \<and> keys \<noteq> [] \<and> length keys < 2 ^ 24 \<longrightarrow>
        float_div (int_to_float (hits c + int H))
          (int_to_float (hits c + misses c + int (length keys)))
          = round_to_float (Fract (int H) (int (length keys)))"
    by (simp only: h)
  from c(1) l1 l3 3 4 show ?thesis by (intro conjI)
qed

text \<open>An instance of the statement for claim C8: a cache of two lines holds one block; of
  three lookups the first hits and the others miss; \<^verbatim>\<open>lcloud_closecache\<close> logs 1 hit,
  2 misses and, for the ratio, the float nearest to \<open>1 / 3\<close>, which is
  \<open>11184811 / 2 ^ 25\<close>.\<close>

theorem closecache_statistics_witness:
  "(case lcloud_putcache (fst (lcloud_initcache cache_startup 2)) 0 0 0 (replicate 256 7) of
      None \<Rightarrow> False
    | Some (c, r0) \<Rightarrow>
        hits c = 0 \<and> misses c = 0 \<and>
        (case cache_lookups c [(0, 0, 0), (0, 0, 1), (0, 0, 2)] of
           None \<Rightarrow> False
         | Some (c1, H) \<Rightarrow>
             H = 1 \<and>
             (case lcloud_closecache c1 of
                None \<Rightarrow> False
              | Some (c2, r) \<Rightarrow>
                  r = 0 \<and> cache_log c2 = [(1, 2, round_to_float (Fract 1 3))] \<and>
                  round_to_float (Fract 1 3) = FNum (11184811 / 33554432))))"
proof -
  have e: "(case lcloud_putcache (fst (lcloud_initcache cache_startup 2)) 0 0 0 (replicate 256 7) of
      None \<Rightarrow> False
    | Some (c, r0) \<Rightarrow>
        hits c = 0 \<and> misses c = 0 \<and> cache_log c = [] \<and>
        (case cache_lookups c [(0, 0, 0), (0, 0, 1), (0, 0, 2)] of
           None \<Rightarrow> False
         | Some (c1, H) \<Rightarrow>
             H = 1 \<and> (case lcloud_closecache c1 of None \<Rightarrow> False | Some (c2, r) \<Rightarrow> True)))"
    by (simp add: lcloud_initcache_def cache_startup_def lcloud_putcache_def deref_def store_def
        strncpy_def lcloud_getcache_def lcloud_closecache_def INT_MAX_def)
  then obtain c r0 c1 c2 r where p: "lcloud_putcache (fst (lcloud_initcache cache_startup 2)) 0 0 0
        (replicate 256 7) = Some (c, r0)"
    and z: "hits c = 0" "misses c = 0" "cache_log c = []"
    and l: "cache_lookups c [(0, 0, 0), (0, 0, 1), (0, 0, 2)] = Some (c1, 1)"
    and f: "lcloud_closecache c1 = Some (c2, r)"
    by (auto split: option.splits)
  have v: "round_to_float (Fract 1 3) = FNum (11184811 / 33554432)" by code_simp
  from closecache_statistics [OF l f] z
  have "r = 0 \<and> cache_log c2 = [(1, 2, round_to_float (Fract 1 3))]" by simp
  with p z l f v show ?thesis by simp
qed

text \<open>Claim C8 as stated, that the division is performed only when the sum of the counters is
  positive, fails: after \<^verbatim>\<open>lcloud_initcache\<close> and no lookup the sum of the counters is 0, and
  \<^verbatim>\<open>lcloud_closecache\<close> logs the quotient of the floats 0 and 0, which is not a number.\<close>

theorem closecache_divides_by_zero:
  "hits (fst (lcloud_initcache cache_startup 4)) + misses (fst (lcloud_initcache cache_startup 4)) = 0 \<and>
   map_option snd (lcloud_closecache (fst (lcloud_initcache cache_startup 4))) = Some 0 \<and>
   map_option (cache_log \<circ> fst) (lcloud_closecache (fst (lcloud_initcache cache_startup 4))) =
     Some [(0, 0, float_div (int_to_float 0) (int_to_float 0))] \<and>
   float_div (int_to_float 0) (int_to_float 0) = FNaN"
  by (simp add: lcloud_initcache_def cache_startup_def lcloud_closecache_def hit_ratio_def
      float_div_def int_to_float_def round_to_float_def float_is_zero_def float_is_inf_def
      INT_MAX_def)

text \<open>Claim C5 at capacity 1.  After \<^verbatim>\<open>lcloud_initcache(1)\<close> a first insert succeeds.  A
  second insert with another key finds no line to replace: \<open>least_time\<close> starts at the clock
  before its increment, which is the time of the only line, so the comparison
  \<^verbatim>\<open>cache.entry_time < least_time\<close> fails, \<^verbatim>\<open>least_recent\<close> is never assigned and the store
  \<^verbatim>\<open>LRU_cache[least_recent] = cache\<close> is undefined.\<close>

theorem putcache_capacity_one:
  "(case lcloud_putcache (fst (lcloud_initcache cache_startup 1)) 0 0 0 (replicate 256 1) of
      None \<Rightarrow> False
    | Some (c1, r1) \<Rightarrow> r1 = 0 \<and> lcloud_putcache c1 0 0 1 (replicate 256 2) = None)"
  by (simp add: lcloud_initcache_def cache_startup_def lcloud_putcache_def deref_def store_def
      strncpy_def INT_MAX_def)


section \<open>Network client: the sequences on the wire\<close>

lemma bus_read_seq:
  assumes "client_connect cl = (cl0, True)"
    and "lcloud_client_extract_registers reg = (b0, b1, c0, c1, c2, d0, d1)"
    and "c0 = LC_BLOCK_XFER K" "c2 = LC_XFER_READ K"
    and "write_results (net cl0) = 8 # ws" "read_results (net cl0) = r # p # rs"
    and "length r = 8" "length p = 256"
  shows "client_lcloud_bus_request K cl reg buf =
     (cl0\<lparr>net := (net cl0)\<lparr>syscalls := syscalls (net cl0) @ [Sys_write (htonll64 reg), Sys_read 8, Sys_read 256],
               write_results := ws, read_results := rs\<rparr>\<rparr>, ntohll64 r, p @ drop 256 buf)"
  using assms
  by (simp add: client_lcloud_bus_request_def sock_write_def sock_read_def
      Let_def LC_DEVICE_BLOCK_SIZE_def memcpy_at_def)

lemma bus_write_seq:
  assumes "client_connect cl = (cl0, True)"
    and "lcloud_client_extract_registers reg = (b0, b1, c0, c1, c2, d0, d1)"
    and "c0 = LC_BLOCK_XFER K" "c2 = LC_XFER_WRITE K" "LC_XFER_READ K \<noteq> LC_XFER_WRITE K"
    and "write_results (net cl0) = 8 # 256 # ws" "read_results (net cl0) = r # rs"
    and "length r = 8"
  shows "client_lcloud_bus_request K cl reg buf =
     (cl0\<lparr>net := (net cl0)\<lparr>syscalls := syscalls (net cl0) @ [Sys_write (htonll64 reg), Sys_write (take 256 buf), Sys_read 8],
               write_results := ws, read_results := rs\<rparr>\<rparr>, ntohll64 r, buf)"
  using assms
  by (simp add: client_lcloud_bus_request_def sock_write_def sock_read_def
      Let_def LC_DEVICE_BLOCK_SIZE_def memcpy_at_def)

lemma bus_power_off_seq:
  assumes "client_connect cl = (cl0, True)"
    and "lcloud_client_extract_registers reg = (b0, b1, c0, c1, c2, d0, d1)"
    and "c0 = LC_POWER_OFF K" "LC_POWER_OFF K \<noteq> LC_BLOCK_XFER K"
    and "write_results (net cl0) = 8 # ws" "read_results (net cl0) = r # rs"
    and "length r = 8"
  shows "client_lcloud_bus_request K cl reg buf =
     (cl0\<lparr>socket_handle := - 1,
         net := (net cl0)\<lparr>syscalls := syscalls (net cl0) @ [Sys_write (htonll64 reg), Sys_read 8, Sys_close],
               write_results := ws, read_results := rs\<rparr>\<rparr>, ntohll64 r, buf)"
  using assms
  by (simp add: client_lcloud_bus_request_def sock_write_def sock_read_def
      Let_def LC_DEVICE_BLOCK_SIZE_def memcpy_at_def)

lemma bus_other_seq:
  assumes "client_connect cl = (cl0, True)"
    and "lcloud_client_extract_registers reg = (b0, b1, c0, c1, c2, d0, d1)"
    and "c0 \<noteq> LC_POWER_OFF K" "c0 \<noteq> LC_BLOCK_XFER K"
    and "write_results (net cl0) = 8 # ws" "read_results (net cl0) = r # rs"
    and "length r = 8"
  shows "client_lcloud_bus_request K cl reg buf =
     (cl0\<lparr>net := (net cl0)\<lparr>syscalls := syscalls (net cl0) @ [Sys_write (htonll64 reg), Sys_read 8],
               write_results := ws, read_results := rs\<rparr>\<rparr>, ntohll64 r, buf)"
  using assms
  by (simp add: client_lcloud_bus_request_def sock_write_def sock_read_def
      Let_def LC_DEVICE_BLOCK_SIZE_def memcpy_at_def)

lemma sock_write_fst:
  "syscalls (net (fst (sock_write cl bs))) = syscalls (net cl) @ [Sys_write bs]"
  by (simp add: sock_write_def Let_def split: list.splits)

lemma sock_read_fst:
  "syscalls (net (fst (sock_read cl k))) = syscalls (net cl) @ [Sys_read k]"
  by (simp add: sock_read_def Let_def split: list.splits)

lemma bus_request_starts_with_write:
  assumes "client_connect cl = (cl0, True)"
  shows "\<exists>more. syscalls (net (fst (client_lcloud_bus_request K cl reg buf)))
         = syscalls (net cl0) @ Sys_write (htonll64 reg) # more"
  using assms
  by (simp add: client_lcloud_bus_request_def Let_def case_prod_beta sock_write_fst sock_read_fst)

lemma connect_cases:
  assumes "socket_handle cl \<noteq> - 1 \<and> cl0 = cl \<or>
     socket_handle cl = - 1 \<and> connect_results (net cl) = (True, fd, True) # cs \<and> fd \<noteq> - 1 \<and>
     cl0 = cl\<lparr>socket_handle := fd,
              net := (net cl)\<lparr>connect_results := cs,
                      syscalls := syscalls (net cl) @ [Sys_socket, Sys_connect]\<rparr>\<rparr>"
  shows "client_connect cl = (cl0, True) \<and>
         write_results (net cl0) = write_results (net cl) \<and>
         read_results (net cl0) = read_results (net cl)"
  using assms by (auto simp add: client_connect_def Let_def)

text \<open>Claim C6.  A request made with no connection (\<open>socket_handle = - 1\<close>) first creates a
  socket and connects it; a request made on an open connection issues neither call.  Then,
  with a peer that transfers everything asked for (every \<^verbatim>\<open>write\<close> returns the length given,
  every \<^verbatim>\<open>read\<close> delivers the length asked), and with distinct codes for the two directions
  and for power-off and block transfer: for a block-read frame the client writes the frame,
  reads 8 bytes, then reads 256 bytes into the caller's buffer; for a block-write frame it
  writes the frame, writes the 256 bytes of the buffer, then reads 8 bytes; for a power-off
  frame it writes the frame, reads 8 bytes, closes the socket and resets \<open>socket_handle\<close> to
  \<open>- 1\<close>, so that the next request, whatever it is, creates and connects a socket before it
  writes its frame; for every other frame it writes the frame and reads 8 bytes.  The frame
  returned is the one received, in host order.  In the statement \<open>cl0\<close> is the client once the
  connection is there: \<open>cl\<close> itself, or \<open>cl\<close> after the calls of \<^verbatim>\<open>socket\<close> and
  \<^verbatim>\<open>connect\<close>.\<close>

theorem bus_wire_sequences:
  assumes "socket_handle cl \<noteq> - 1 \<and> cl0 = cl \<or>
     socket_handle cl = - 1 \<and> connect_results (net cl) = (True, fd, True) # cs \<and> fd \<noteq> - 1 \<and>
     cl0 = cl\<lparr>socket_handle := fd,
              net := (net cl)\<lparr>connect_results := cs,
                      syscalls := syscalls (net cl) @ [Sys_socket, Sys_connect]\<rparr>\<rparr>"
    and "lcloud_client_extract_registers reg = (b0, b1, c0, c1, c2, d0, d1)"
    and "LC_XFER_READ K \<noteq> LC_XFER_WRITE K" and "LC_POWER_OFF K \<noteq> LC_BLOCK_XFER K"
    and "length r = 8" and "length p = 256"
  shows
   "(c0 = LC_BLOCK_XFER K \<and> c2 = LC_XFER_READ K \<and>
     write_results (net cl) = 8 # ws \<and> read_results (net cl) = r # p # rs \<longrightarrow>
       client_lcloud_bus_request K cl reg buf =
         (cl0\<lparr>net := (net cl0)\<lparr>syscalls := syscalls (net cl0)
                     @ [Sys_write (htonll64 reg), Sys_read 8, Sys_read 256],
                   write_results := ws, read_results := rs\<rparr>\<rparr>,
          ntohll64 r, p @ drop 256 buf)) \<and>
    (c0 = LC_BLOCK_XFER K \<and> c2 = LC_XFER_WRITE K \<and>
     write_results (net cl) = 8 # 256 # ws \<and> read_results (net cl) = r # rs \<longrightarrow>
       client_lcloud_bus_request K cl reg buf =
         (cl0\<lparr>net := (net cl0)\<lparr>syscalls := syscalls (net cl0)
                     @ [Sys_write (htonll64 reg), Sys_write (take 256 buf), Sys_read 8],
                   write_results := ws, read_results := rs\<rparr>\<rparr>,
          ntohll64 r, buf)) \<and>
    (c0 = LC_POWER_OFF K \<and>
     write_results (net cl) = 8 # ws \<and> read_results (net cl) = r # rs \<longrightarrow>
       client_lcloud_bus_request K cl reg buf =
         (cl0\<lparr>socket_handle := - 1,
             net := (net cl0)\<lparr>syscalls := syscalls (net cl0)
                     @ [Sys_write (htonll64 reg), Sys_read 8, Sys_close],
                   write_results := ws, read_results := rs\<rparr>\<rparr>,
          ntohll64 r, buf) \<and>
       (\<forall>fd' cs' reg2 buf2. connect_results (net cl0) = (True, fd', True) # cs' \<and> fd' \<noteq> - 1 \<longrightarrow>
          (\<exists>more. syscalls (net (fst (client_lcloud_bus_request K
                       (fst (client_lcloud_bus_request K cl reg buf)) reg2 buf2)))
             = syscalls (net cl0)
                 @ [Sys_write (htonll64 reg), Sys_read 8, Sys_close,
                    Sys_socket, Sys_connect, Sys_write (htonll64 reg2)] @ more))) \<and>
    (c0 \<noteq> LC_POWER_OFF K \<and> c0 \<noteq> LC_BLOCK_XFER K \<and>
     write_results (net cl) = 8 # ws \<and> read_results (net cl) = r # rs \<longrightarrow>
       client_lcloud_bus_request K cl reg buf =
         (cl0\<lparr>net := (net cl0)\<lparr>syscalls := syscalls (net cl0)
                     @ [Sys_write (htonll64 reg), Sys_read 8],
                   write_results := ws, read_results := rs\<rparr>\<rparr>,
          ntohll64 r, buf))"
proof -
  from connect_cases [OF assms(1)] have cn: "client_connect cl = (cl0, True)"
    and w: "write_results (net cl0) = write_results (net cl)"
    and rd: "read_results (net cl0) = read_results (net cl)"
    by simp_all
  have 1: "c0 = LC_BLOCK_XFER K \<and> c2 = LC_XFER_READ K \<and>
     write_results (net cl) = 8 # ws \<and> read_results (net cl) = r # p # rs \<longrightarrow>
       client_lcloud_bus_request K cl reg buf =
         (cl0\<lparr>net := (net cl0)\<lparr>syscalls := syscalls (net cl0)
                     @ [Sys_write (htonll64 reg), Sys_read 8, Sys_read 256],
                   write_results := ws, read_results := rs\<rparr>\<rparr>,
          ntohll64 r, p @ drop 256 buf)"
  proof
    assume a: "c0 = LC_BLOCK_XFER K \<and> c2 = LC_XFER_READ K \<and>
     write_results (net cl) = 8 # ws \<and> read_results (net cl) = r # p # rs"
    with w rd assms(5,6) show "client_lcloud_bus_request K cl reg buf =
         (cl0\<lparr>net := (net cl0)\<lparr>syscalls := syscalls (net cl0)
                     @ [Sys_write (htonll64 reg), Sys_read 8, Sys_read 256],
                   write_results := ws, read_results := rs\<rparr>\<rparr>,
          ntohll64 r, p @ drop 256 buf)"
      by (intro bus_read_seq [OF cn assms(2)]) simp_all
  qed
  have 2: "c0 = LC_BLOCK_XFER K \<and> c2 = LC_XFER_WRITE K \<and>
     write_results (net cl) = 8 # 256 # ws \<and> read_results (net cl) = r # rs \<longrightarrow>
       client_lcloud_bus_request K cl reg buf =
         (cl0\<lparr>net := (net cl0)\<lparr>syscalls := syscalls (net cl0)
                     @ [Sys_write (htonll64 reg), Sys_write (take 256 buf), Sys_read 8],
                   write_results := ws, read_results := rs\<rparr>\<rparr>,
          ntohll64 r, buf)"
  proof
    assume a: "c0 = LC_BLOCK_XFER K \<and> c2 = LC_XFER_WRITE K \<and>
     write_results (net cl) = 8 # 256 # ws \<and> read_results (net cl) = r # rs"
    with w rd assms(3,5) show "client_lcloud_bus_request K cl reg buf =
         (cl0\<lparr>net := (net cl0)\<lparr>syscalls := syscalls (net cl0)
                     @ [Sys_write (htonll64 reg), Sys_write (take 256 buf), Sys_read 8],
                   write_results := ws, read_results := rs\<rparr>\<rparr>,
          ntohll64 r, buf)"
      by (intro bus_write_seq [OF cn assms(2)]) simp_all
  qed
  have 3: "c0 = LC_POWER_OFF K \<and>
     write_results (net cl) = 8 # ws \<and> read_results (net cl) = r # rs \<longrightarrow>
       client_lcloud_bus_request K cl reg buf =
         (cl0\<lparr>socket_handle := - 1,
             net := (net cl0)\<lparr>syscalls := syscalls (net cl0)
                     @ [Sys_write (htonll64 reg), Sys_read 8, Sys_close],
                   write_results := ws, read_results := rs\<rparr>\<rparr>,
          ntohll64 r, buf) \<and>
       (\<forall>fd' cs' reg2 buf2. connect_results (net cl0) = (True, fd', True) # cs' \<and> fd' \<noteq> - 1 \<longrightarrow>
          (\<exists>more. syscalls (net (fst (client_lcloud_bus_request K
                       (fst (client_lcloud_bus_request K cl reg buf)) reg2 buf2)))
             = syscalls (net cl0)
                 @ [Sys_write (htonll64 reg), Sys_read 8, Sys_close,
                    Sys_socket, Sys_connect, Sys_write (htonll64 reg2)] @ more))"
  proof
    assume a: "c0 = LC_POWER_OFF K \<and>
     write_results (net cl) = 8 # ws \<and> read_results (net cl) = r # rs"
    let ?cl1 = "cl0\<lparr>socket_handle := - 1,
             net := (net cl0)\<lparr>syscalls := syscalls (net cl0)
                     @ [Sys_write (htonll64 reg), Sys_read 8, Sys_close],
                   write_results := ws, read_results := rs\<rparr>\<rparr>"
    from a w rd assms(4,5)
    have e: "client_lcloud_bus_request K cl reg buf = (?cl1, ntohll64 r, buf)"
      by (intro bus_power_off_seq [OF cn assms(2)]) simp_all
    have n: "\<forall>fd' cs' reg2 buf2.
          connect_results (net cl0) = (True, fd', True) # cs' \<and> fd' \<noteq> - 1 \<longrightarrow>
          (\<exists>more. syscalls (net (fst (client_lcloud_bus_request K
                       (fst (client_lcloud_bus_request K cl reg buf)) reg2 buf2)))
             = syscalls (net cl0)
                 @ [Sys_write (htonll64 reg), Sys_read 8, Sys_close,
                    Sys_socket, Sys_connect, Sys_write (htonll64 reg2)] @ more)"
    proof (intro allI impI)
      fix fd' cs' reg2 buf2
      assume c: "connect_results (net cl0) = (True, fd', True) # cs' \<and> fd' \<noteq> - 1"
      let ?cl2 = "?cl1\<lparr>socket_handle := fd', net := (net ?cl1)\<lparr>connect_results := cs',
        syscalls := syscalls (net ?cl1) @ [Sys_socket, Sys_connect]\<rparr>\<rparr>"
      have "client_connect ?cl1 = (?cl2, True)"
        using c by (simp add: client_connect_def Let_def)
      from bus_request_starts_with_write [OF this, of K reg2 buf2] e
      show "\<exists>more. syscalls (net (fst (client_lcloud_bus_request K
                       (fst (client_lcloud_bus_request K cl reg buf)) reg2 buf2)))
             = syscalls (net cl0)
                 @ [Sys_write (htonll64 reg), Sys_read 8, Sys_close,
                    Sys_socket, Sys_connect, Sys_write (htonll64 reg2)] @ more"
        by simp
    qed
    from e n show "client_lcloud_bus_request K cl reg buf =
         (cl0\<lparr>socket_handle := - 1,
             net := (net cl0)\<lparr>syscalls := syscalls (net cl0)
                     @ [Sys_write (htonll64 reg), Sys_read 8, Sys_close],
                   write_results := ws, read_results := rs\<rparr>\<rparr>,
          ntohll64 r, buf) \<and>
       (\<forall>fd' cs' reg2 buf2. connect_results (net cl0) = (True, fd', True) # cs' \<and> fd' \<noteq> - 1 \<longrightarrow>
          (\<exists>more. syscalls (net (fst (client_lcloud_bus_request K
                       (fst (client_lcloud_bus_request K cl reg buf)) reg2 buf2)))
             = syscalls (net cl0)
                 @ [Sys_write (htonll64 reg), Sys_read 8, Sys_close,
                    Sys_socket, Sys_connect, Sys_write (htonll64 reg2)] @ more))"
      by (rule conjI)
  qed
  have 4: "c0 \<noteq> LC_POWER_OFF K \<and> c0 \<noteq> LC_BLOCK_XFER K \<and>
     write_results (net cl) = 8 # ws \<and> read_results (net cl) = r # rs \<longrightarrow>
       client_lcloud_bus_request K cl reg buf =
         (cl0\<lparr>net := (net cl0)\<lparr>syscalls := syscalls (net cl0)
                     @ [Sys_write (htonll64 reg), Sys_read 8],
                   write_results := ws, read_results := rs\<rparr>\<rparr>,
          ntohll64 r, buf)"
  proof
    assume a: "c0 \<noteq> LC_POWER_OFF K \<and> c0 \<noteq> LC_BLOCK_XFER K \<and>
     write_results (net cl) = 8 # ws \<and> read_results (net cl) = r # rs"
    with w rd assms(5) show "client_lcloud_bus_request K cl reg buf =
         (cl0\<lparr>net := (net cl0)\<lparr>syscalls := syscalls (net cl0)
                     @ [Sys_write (htonll64 reg), Sys_read 8],
                   write_results := ws, read_results := rs\<rparr>\<rparr>,
          ntohll64 r, buf)"
      by (intro bus_other_seq [OF cn assms(2)]) simp_all
  qed
  from 1 2 3 4 show ?thesis by (intro conjI)
qed

text \<open>An instance of the statement for claim C6: the calls issued on the example connection
  for a block read, a block write, a power-off and a probe; and, with no connection at program
  start, the calls issued for a power-on and for a block read.\<close>

theorem bus_wire_sequences_witness:
  "socket_handle example_client \<noteq> - 1 \<and>
   socket_handle (client (fs_startup example_network)) = - 1 \<and>
   LC_XFER_READ example_constants \<noteq> LC_XFER_WRITE example_constants \<and>
   LC_POWER_OFF example_constants \<noteq> LC_BLOCK_XFER example_constants \<and>
   lcloud_client_extract_registers (create_lcloud_registers 0 0 3 0 1 0 0) = (0, 0, 3, 0, 1, 0, 0) \<and>
   syscalls (net (fst (client_lcloud_bus_request example_constants example_client
       (create_lcloud_registers 0 0 3 0 1 0 0) (replicate 256 0))))
     = [Sys_write (htonll64 (create_lcloud_registers 0 0 3 0 1 0 0)), Sys_read 8, Sys_read 256] \<and>
   syscalls (net (fst (client_lcloud_bus_request example_constants example_client
       (create_lcloud_registers 0 0 3 0 0 0 0) (replicate 256 5))))
     = [Sys_write (htonll64 (create_lcloud_registers 0 0 3 0 0 0 0)), Sys_write (replicate 256 5),
        Sys_read 8] \<and>
   syscalls (net (fst (client_lcloud_bus_request example_constants example_client
       (create_lcloud_registers 0 0 4 0 0 0 0) [])))
     = [Sys_write (htonll64 (create_lcloud_registers 0 0 4 0 0 0 0)), Sys_read 8, Sys_close] \<and>
   socket_handle (fst (client_lcloud_bus_request example_constants example_client
       (create_lcloud_registers 0 0 4 0 0 0 0) [])) = - 1 \<and>
   syscalls (net (fst (client_lcloud_bus_request example_constants example_client
       (create_lcloud_registers 0 0 1 0 0 0 0) [])))
     = [Sys_write (htonll64 (create_lcloud_registers 0 0 1 0 0 0 0)), Sys_read 8] \<and>
   syscalls (net (fst (client_lcloud_bus_request example_constants
       (client (fs_startup example_network)) (create_lcloud_registers 0 0 0 0 0 0 0) [])))
     = [Sys_socket, Sys_connect,
        Sys_write (htonll64 (create_lcloud_registers 0 0 0 0 0 0 0)), Sys_read 8] \<and>
   socket_handle (fst (client_lcloud_bus_request example_constants
       (client (fs_startup example_network)) (create_lcloud_registers 0 0 0 0 0 0 0) [])) = 3 \<and>
   syscalls (net (fst (client_lcloud_bus_request example_constants
       (client (fs_startup example_fresh_read)) (create_lcloud_registers 0 0 3 0 1 0 0)
       (replicate 256 0))))
     = [Sys_socket, Sys_connect,
        Sys_write (htonll64 (create_lcloud_registers 0 0 3 0 1 0 0)), Sys_read 8, Sys_read 256]"
proof -
  let ?r = "htonll64 (create_lcloud_registers 1 1 3 0 0 0 0)"
  let ?rp = "htonll64 (create_lcloud_registers 1 1 0 0 0 0 0)"
  let ?f = "client (fs_startup example_network)"
  let ?fc = "?f\<lparr>socket_handle := 3,
              net := (net ?f)\<lparr>connect_results := [],
                      syscalls := syscalls (net ?f) @ [Sys_socket, Sys_connect]\<rparr>\<rparr>"
  let ?g = "client (fs_startup example_fresh_read)"
  let ?gc = "?g\<lparr>socket_handle := 3,
              net := (net ?g)\<lparr>connect_results := [],
                      syscalls := syscalls (net ?g) @ [Sys_socket, Sys_connect]\<rparr>\<rparr>"
  have s: "socket_handle example_client \<noteq> - 1 \<and> example_client = example_client \<or>
     socket_handle example_client = - 1 \<and>
     connect_results (net example_client) = (True, 0, True) # [] \<and> (0::int) \<noteq> - 1 \<and>
     example_client = example_client\<lparr>socket_handle := 0,
              net := (net example_client)\<lparr>connect_results := [],
                      syscalls := syscalls (net example_client) @ [Sys_socket, Sys_connect]\<rparr>\<rparr>"
    by (simp add: example_client_def)
  have sf: "socket_handle ?f \<noteq> - 1 \<and> ?fc = ?f \<or>
     socket_handle ?f = - 1 \<and>
     connect_results (net ?f) = (True, 3, True) # [] \<and> (3::int) \<noteq> - 1 \<and>
     ?fc = ?f\<lparr>socket_handle := 3,
              net := (net ?f)\<lparr>connect_results := [],
                      syscalls := syscalls (net ?f) @ [Sys_socket, Sys_connect]\<rparr>\<rparr>"
    by (simp add: fs_startup_def example_network_def)
  have sg: "socket_handle ?g \<noteq> - 1 \<and> ?gc = ?g \<or>
     socket_handle ?g = - 1 \<and>
     connect_results (net ?g) = (True, 3, True) # [] \<and> (3::int) \<noteq> - 1 \<and>
     ?gc = ?g\<lparr>socket_handle := 3,
              net := (net ?g)\<lparr>connect_results := [],
                      syscalls := syscalls (net ?g) @ [Sys_socket, Sys_connect]\<rparr>\<rparr>"
    by (simp add: fs_startup_def example_fresh_read_def)
  have o: "socket_handle example_client \<noteq> - 1" by (simp add: example_client_def)
  have c: "socket_handle ?f = - 1" by (simp add: fs_startup_def)
  have d: "LC_XFER_READ example_constants \<noteq> LC_XFER_WRITE example_constants"
    "LC_POWER_OFF example_constants \<noteq> LC_BLOCK_XFER example_constants"
    by (simp_all add: example_constants_def)
  have l: "length ?r = 8" "length (replicate 256 (9 :: byte)) = 256"
    by (simp_all add: htonll64_def)
  have l0: "length ?rp = 8" by (simp add: htonll64_def)
  have x: "lcloud_client_extract_registers (create_lcloud_registers 0 0 3 0 1 0 0) = (0, 0, 3, 0, 1, 0, 0)"
    "lcloud_client_extract_registers (create_lcloud_registers 0 0 3 0 0 0 0) = (0, 0, 3, 0, 0, 0, 0)"
    "lcloud_client_extract_registers (create_lcloud_registers 0 0 4 0 0 0 0) = (0, 0, 4, 0, 0, 0, 0)"
    "lcloud_client_extract_registers (create_lcloud_registers 0 0 1 0 0 0 0) = (0, 0, 1, 0, 0, 0, 0)"
    "lcloud_client_extract_registers (create_lcloud_registers 0 0 0 0 0 0 0) = (0, 0, 0, 0, 0, 0, 0)"
    by (simp_all add: lcloud_client_extract_registers_def create_lcloud_registers_def)
  have k: "LC_BLOCK_XFER example_constants = 3" "LC_XFER_READ example_constants = 1"
    "LC_XFER_WRITE example_constants = 0" "LC_POWER_OFF example_constants = 4"
    by (simp_all add: example_constants_def)
  have n: "write_results (net example_client) = 8 # [256, 8]"
    "write_results (net example_client) = 8 # 256 # [8]"
    "read_results (net example_client) = ?r # replicate 256 9 # []"
    "read_results (net example_client) = ?r # [replicate 256 9]"
    "syscalls (net example_client) = []"
    by (simp_all add: example_client_def)
  have nf: "write_results (net ?f) = 8 # tl (write_results example_network)"
    "read_results (net ?f) = ?rp # tl (read_results example_network)"
    "syscalls (net ?f) = []"
    by (simp_all add: fs_startup_def example_network_def)
  have ng: "write_results (net ?g) = 8 # []"
    "read_results (net ?g) = ?r # replicate 256 9 # []"
    "syscalls (net ?g) = []"
    by (simp_all add: fs_startup_def example_fresh_read_def)
  from bus_wire_sequences [OF s x(1) d l, of "[256, 8]" "[]" "replicate 256 0"] k n
  have 1: "syscalls (net (fst (client_lcloud_bus_request example_constants example_client
       (create_lcloud_registers 0 0 3 0 1 0 0) (replicate 256 0))))
     = [Sys_write (htonll64 (create_lcloud_registers 0 0 3 0 1 0 0)), Sys_read 8, Sys_read 256]"
    by simp
  from bus_wire_sequences [OF s x(2) d l, of "[8]" "[replicate 256 9]" "replicate 256 5"] k n
  have 2: "syscalls (net (fst (client_lcloud_bus_request example_constants example_client
       (create_lcloud_registers 0 0 3 0 0 0 0) (replicate 256 5))))
     = [Sys_write (htonll64 (create_lcloud_registers 0 0 3 0 0 0 0)), Sys_write (replicate 256 5),
        Sys_read 8]"
    by simp
  from bus_wire_sequences [OF s x(3) d l, of "[256, 8]" "[replicate 256 9]" "[]"] k n
  have 3: "syscalls (net (fst (client_lcloud_bus_request example_constants example_client
       (create_lcloud_registers 0 0 4 0 0 0 0) [])))
     = [Sys_write (htonll64 (create_lcloud_registers 0 0 4 0 0 0 0)), Sys_read 8, Sys_close] \<and>
   socket_handle (fst (client_lcloud_bus_request example_constants example_client
       (create_lcloud_registers 0 0 4 0 0 0 0) [])) = - 1"
    by simp
  from bus_wire_sequences [OF s x(4) d l, of "[256, 8]" "[replicate 256 9]" "[]"] k n
  have 4: "syscalls (net (fst (client_lcloud_bus_request example_constants example_client
       (create_lcloud_registers 0 0 1 0 0 0 0) [])))
     = [Sys_write (htonll64 (create_lcloud_registers 0 0 1 0 0 0 0)), Sys_read 8]"
    by simp
  from bus_wire_sequences [OF sf x(5) d l0 l(2), of "tl (write_results example_network)"
      "tl (read_results example_network)" "[]"] k nf
  have 5: "syscalls (net (fst (client_lcloud_bus_request example_constants ?f
       (create_lcloud_registers 0 0 0 0 0 0 0) [])))
     = [Sys_socket, Sys_connect,
        Sys_write (htonll64 (create_lcloud_registers 0 0 0 0 0 0 0)), Sys_read 8] \<and>
   socket_handle (fst (client_lcloud_bus_request example_constants ?f
       (create_lcloud_registers 0 0 0 0 0 0 0) [])) = 3"
    by simp
  from bus_wire_sequences [OF sg x(1) d l, of "[]" "[]" "replicate 256 0"] k ng
  have 6: "syscalls (net (fst (client_lcloud_bus_request example_constants ?g
       (create_lcloud_registers 0 0 3 0 1 0 0) (replicate 256 0))))
     = [Sys_socket, Sys_connect,
        Sys_write (htonll64 (create_lcloud_registers 0 0 3 0 1 0 0)), Sys_read 8, Sys_read 256]"
    by simp
  from o c d x(1) 1 2 3 4 5 6 show ?thesis by (intro conjI) simp_all
qed


section \<open>What each function adds to the history\<close>

lemma extends_by_iff:
  "extends_by P st st' \<longleftrightarrow>
     file_handle st' = file_handle st \<and> power_ons st' = power_ons st \<and>
     (\<exists>new. exchanges st' = exchanges st @ new \<and> list_all P new)"
proof
  assume "extends_by P st st'"
  then have h: "file_handle st' = file_handle st" "power_ons st' = power_ons st"
    "take (length (exchanges st)) (exchanges st') = exchanges st"
    "list_all P (drop (length (exchanges st)) (exchanges st'))"
    by (simp_all add: extends_by_def new_exchanges_def)
  have "exchanges st' = exchanges st @ drop (length (exchanges st)) (exchanges st')"
    using h(3) append_take_drop_id [of "length (exchanges st)" "exchanges st'"] by simp
  with h show "file_handle st' = file_handle st \<and> power_ons st' = power_ons st \<and>
     (\<exists>new. exchanges st' = exchanges st @ new \<and> list_all P new)" by blast
next
  assume "file_handle st' = file_handle st \<and> power_ons st' = power_ons st \<and>
     (\<exists>new. exchanges st' = exchanges st @ new \<and> list_all P new)"
  then show "extends_by P st st'"
    by (auto simp add: extends_by_def new_exchanges_def)
qed

lemma extends_by_refl: "extends_by P st st"
  by (simp add: extends_by_iff)

lemma extends_by_trans:
  "extends_by P st st1 \<Longrightarrow> extends_by P st1 st2 \<Longrightarrow> extends_by P st st2"
  by (auto simp add: extends_by_iff)

lemma extends_by_mono:
  "extends_by P st st' \<Longrightarrow> (\<And>e. P e \<Longrightarrow> Q e) \<Longrightarrow> extends_by Q st st'"
  by (auto simp add: extends_by_iff list_all_iff)

lemma extends_by_fields [simp]:
  "extends_by P st (st'\<lparr>cache := c\<rparr>) = extends_by P st st'"
  "extends_by P st (st'\<lparr>files := f\<rparr>) = extends_by P st st'"
  "extends_by P st (st'\<lparr>devices := d\<rparr>) = extends_by P st st'"
  "extends_by P st (st'\<lparr>client := cl\<rparr>) = extends_by P st st'"
  "extends_by P (st\<lparr>cache := c\<rparr>) st' = extends_by P st st'"
  "extends_by P (st\<lparr>files := f\<rparr>) st' = extends_by P st st'"
  "extends_by P (st\<lparr>devices := d\<rparr>) st' = extends_by P st st'"
  "extends_by P (st\<lparr>client := cl\<rparr>) st' = extends_by P st st'"
  by (simp_all add: extends_by_def new_exchanges_def)

lemma request_extends:
  assumes "request K st frm buf op = (st', res)"
  shows "extends_by (\<lambda>e. fst e = frm \<and> (res \<noteq> None \<longrightarrow> passed op (snd e))) st st' \<and>
         files st' = files st \<and> devices st' = devices st \<and> cache st' = cache st"
  using assms
  by (auto simp add: request_def bus_request_def extends_by_iff passed_def
      split: if_splits prod.splits)

lemma passed_acknowledged:
  assumes "passed op rfrm"
  shows "acknowledged (create_lcloud_registers a b op c d e f, rfrm)"
proof -
  from assms have "op = drop_bit 48 rfrm AND mask 8"
    by (simp add: passed_def extract_eq)
  then have "op AND 0xff = op"
    by (simp add: mask8 and.assoc)
  with assms show ?thesis
    by (simp add: acknowledged_def extract_create)
qed

lemma read_frame_not_write:
  assumes "LC_XFER_READ K AND 0xff \<noteq> LC_XFER_WRITE K AND 0xff"
  shows "\<not> is_write_request K (create_lcloud_registers 0 0 op dev (LC_XFER_READ K) sec blk)"
proof
  assume "is_write_request K (create_lcloud_registers 0 0 op dev (LC_XFER_READ K) sec blk)"
  then obtain c1 d0 d1 where "create_lcloud_registers 0 0 op dev (LC_XFER_READ K) sec blk
      = create_lcloud_registers 0 0 (LC_BLOCK_XFER K) c1 (LC_XFER_WRITE K) d0 d1"
    by (auto simp add: is_write_request_def split: prod.splits)
  then have "extract_lcloud_registers (create_lcloud_registers 0 0 op dev (LC_XFER_READ K) sec blk)
      = extract_lcloud_registers (create_lcloud_registers 0 0 (LC_BLOCK_XFER K) c1 (LC_XFER_WRITE K) d0 d1)"
    by simp
  then show False using assms by (simp add: extract_create)
qed

lemma device_init_loop_extends:
  "device_init_loop K st did probe = (st', r) \<Longrightarrow>
     extends_by (\<lambda>e. r \<noteq> - 1 \<longrightarrow> acknowledged e) st st' \<and> files st' = files st \<and> cache st' = cache st"
proof (induction n \<equiv> "nat (16 - did)" arbitrary: st did probe)
  case 0
  then have "\<not> did < 16" by simp
  with "0.prems" show ?case by (simp add: extends_by_refl)
next
  case (Suc n)
  then have lt: "did < 16" and n: "n = nat (16 - (did + 1))" by simp_all
  show ?case
  proof (cases "probe mod 2 \<noteq> 0")
    case False
    let ?st = "st\<lparr>devices := (devices st)(nat did := (devices st (nat did))\<lparr>d_dev_id := - 1\<rparr>)\<rparr>"
    from Suc.prems lt False have "device_init_loop K ?st (did + 1) (probe div 2) = (st', r)"
      by simp
    from Suc.hyps(1) [OF n this] show ?thesis by simp
  next
    case p: True
    let ?frm = "create_lcloud_registers 0 0 (LC_DEVINIT K) (word_of_int did) 0 0 0"
    obtain st1 res where q: "request K st ?frm [] (LC_DEVINIT K) = (st1, res)"
      by (cases "request K st ?frm [] (LC_DEVINIT K)") auto
    from request_extends [OF q]
    have e: "extends_by (\<lambda>e. fst e = ?frm \<and> (res \<noteq> None \<longrightarrow> passed (LC_DEVINIT K) (snd e))) st st1"
      and f: "files st1 = files st" "cache st1 = cache st" by simp_all
    show ?thesis
    proof (cases res)
      case None
      with Suc.prems lt p q have "st' = st1" "r = - 1" by simp_all
      with e f show ?thesis by (auto elim: extends_by_mono)
    next
      case (Some a)
      obtain b0 b1 c0 c1 c2 d0 d1 buf where a: "a = ((b0, b1, c0, c1, c2, d0, d1), buf)"
        by (cases a) auto
      let ?st = "st1\<lparr>devices := (devices st1)(nat did :=
                   \<lparr>sector_block = Live (replicate (unat d0) (replicate (unat d1)
                        \<lparr>next_sector = - 1, next_block = - 1, next_dev_id = - 1, used = 0\<rparr>)),
                    sectors = uint d0, blocks = uint d1, d_dev_id = did\<rparr>)\<rparr>"
      from Suc.prems lt p q Some a
      have l: "device_init_loop K ?st (did + 1) (probe div 2) = (st', r)" by simp
      from Suc.hyps(1) [OF n l]
      have i: "extends_by (\<lambda>e. r \<noteq> - 1 \<longrightarrow> acknowledged e) st1 st'" "files st' = files st1"
        "cache st' = cache st1" by simp_all
      have "extends_by (\<lambda>e. r \<noteq> - 1 \<longrightarrow> acknowledged e) st st1"
        using e Some by (auto elim!: extends_by_mono intro: passed_acknowledged)
      with i f show ?thesis by (auto intro: extends_by_trans)
    qed
  qed
qed

lemma device_power_on_extends:
  assumes "device_power_on K st = (st', r)"
  shows "extends_by (\<lambda>e. r \<noteq> - 1 \<longrightarrow> acknowledged e) (st\<lparr>power_ons := power_ons st + 1\<rparr>) st' \<and>
         files st' = files st"
proof -
  let ?st0 = "st\<lparr>power_ons := power_ons st + 1\<rparr>"
  let ?f1 = "create_lcloud_registers 0 0 (LC_POWER_ON K) 0 0 0 0"
  let ?f2 = "create_lcloud_registers 0 0 (LC_DEVPROBE K) 0 0 0 0"
  obtain st1 res1 where q1: "request K ?st0 ?f1 [] (LC_POWER_ON K) = (st1, res1)"
    by (cases "request K ?st0 ?f1 [] (LC_POWER_ON K)") auto
  from request_extends [OF q1]
  have e1: "extends_by (\<lambda>e. fst e = ?f1 \<and> (res1 \<noteq> None \<longrightarrow> passed (LC_POWER_ON K) (snd e))) ?st0 st1"
    and f1: "files st1 = files st" by simp_all
  show ?thesis
  proof (cases res1)
    case None
    with assms q1 have "st' = st1" "r = - 1" by (simp_all add: device_power_on_def)
    with e1 f1 show ?thesis by (auto elim: extends_by_mono)
  next
    case s1: (Some a1)
    have x1: "extends_by (\<lambda>e. r \<noteq> - 1 \<longrightarrow> acknowledged e) ?st0 st1"
      using e1 s1 by (auto elim!: extends_by_mono intro: passed_acknowledged)
    obtain st2 res2 where q2: "request K st1 ?f2 [] (LC_DEVPROBE K) = (st2, res2)"
      by (cases "request K st1 ?f2 [] (LC_DEVPROBE K)") auto
    from request_extends [OF q2]
    have e2: "extends_by (\<lambda>e. fst e = ?f2 \<and> (res2 \<noteq> None \<longrightarrow> passed (LC_DEVPROBE K) (snd e))) st1 st2"
      and f2: "files st2 = files st1" by simp_all
    show ?thesis
    proof (cases res2)
      case None
      with assms q1 s1 q2 have "st' = st2" "r = - 1" by (simp_all add: device_power_on_def)
      with e2 f1 f2 x1 show ?thesis by (auto elim: extends_by_mono intro: extends_by_trans)
    next
      case s2: (Some a2)
      have x2: "extends_by (\<lambda>e. r \<noteq> - 1 \<longrightarrow> acknowledged e) st1 st2"
        using e2 s2 by (auto elim!: extends_by_mono intro: passed_acknowledged)
      obtain b0 b1 c0 c1 c2 d0 d1 buf where a2: "a2 = ((b0, b1, c0, c1, c2, d0, d1), buf)"
        by (cases a2) auto
      obtain st3 r3 where l: "device_init_loop K st2 0 (uint d0) = (st3, r3)"
        by (cases "device_init_loop K st2 0 (uint d0)") auto
      from device_init_loop_extends [OF l]
      have e3: "extends_by (\<lambda>e. r3 \<noteq> - 1 \<longrightarrow> acknowledged e) st2 st3" and f3: "files st3 = files st2"
        by simp_all
      from assms q1 s1 q2 s2 a2 l
      have r: "(r3 = - 1 \<and> st' = st3 \<and> r = - 1) \<or>
        (r3 \<noteq> - 1 \<and> r = 0 \<and> st' = st3\<lparr>cache := fst (lcloud_initcache (cache st3) (LC_CACHE_MAXBLOCKS K))\<rparr>)"
        by (auto simp add: device_power_on_def split: if_splits)
      then have "extends_by (\<lambda>e. r \<noteq> - 1 \<longrightarrow> acknowledged e) st2 st'" "files st' = files st3"
        using e3 by (auto elim: extends_by_mono)
      with x1 x2 f1 f2 f3 show ?thesis by (auto intro: extends_by_trans)
    qed
  qed
qed

lemma lcread_fetch_extends:
  assumes "lcread_fetch K st d s b = Some (st', res)"
  shows "extends_by (\<lambda>e. (directions_differ K \<longrightarrow> \<not> is_write_request K (fst e)) \<and> (res \<noteq> None \<longrightarrow> acknowledged e)) st st' \<and>
         files st' = files st \<and> devices st' = devices st"
proof -
  from assms(1) obtain c1 cb where g: "lcloud_getcache (cache st) d (word_of_int s) (word_of_int b) = Some (c1, cb)"
    by (auto simp add: lcread_fetch_def split: option.splits)
  show ?thesis
  proof (cases cb)
    case (Some blk)
    with assms(1) g have "st' = st\<lparr>cache := c1\<rparr>" by (simp add: lcread_fetch_def)
    then show ?thesis by (simp add: extends_by_refl)
  next
    case None
    let ?frm = "create_lcloud_registers 0 0 (LC_BLOCK_XFER K) (word_of_int d)
                     (LC_XFER_READ K) (word_of_int s) (word_of_int b)"
    obtain st1 r1 where q: "request K (st\<lparr>cache := c1\<rparr>) ?frm (replicate 256 0) (LC_BLOCK_XFER K) = (st1, r1)"
      by (cases "request K (st\<lparr>cache := c1\<rparr>) ?frm (replicate 256 0) (LC_BLOCK_XFER K)") auto
    from request_extends [OF q]
    have e: "extends_by (\<lambda>e. fst e = ?frm \<and> (r1 \<noteq> None \<longrightarrow> passed (LC_BLOCK_XFER K) (snd e))) st st1"
      and f: "files st1 = files st" "devices st1 = devices st" by simp_all
    from assms(1) g None q have r: "st' = st1" "res \<noteq> None \<longrightarrow> r1 \<noteq> None"
      by (auto simp add: lcread_fetch_def split: option.splits)
    have "extends_by (\<lambda>e. (directions_differ K \<longrightarrow> \<not> is_write_request K (fst e)) \<and> (res \<noteq> None \<longrightarrow> acknowledged e)) st st1"
    proof (rule extends_by_mono [OF e])
      fix e :: "LCloudRegisterFrame \<times> LCloudRegisterFrame"
      assume a: "fst e = ?frm \<and> (r1 \<noteq> None \<longrightarrow> passed (LC_BLOCK_XFER K) (snd e))"
      then have "(directions_differ K \<longrightarrow> \<not> is_write_request K (fst e))" using read_frame_not_write [of K] by (simp add: directions_differ_def)
      moreover have "acknowledged e" if "res \<noteq> None"
        using that a r(2) passed_acknowledged [of "LC_BLOCK_XFER K" "snd e"] by (cases e) auto
      ultimately show "(directions_differ K \<longrightarrow> \<not> is_write_request K (fst e)) \<and> (res \<noteq> None \<longrightarrow> acknowledged e)" by blast
    qed
    with r f show ?thesis by simp
  qed
qed

lemma c_rem_less: "c_rem p 256 < 256"
proof -
  have "0 \<le> (- p) mod 256" by simp
  then have "- ((- p) mod 256) < 256" by linarith
  moreover have "p mod 256 < 256" by simp
  ultimately show ?thesis by (simp add: c_rem_def sgn_if)
qed

lemma lcread_body_extends:
  assumes "lcread_body K st fl len i buf = Some x"
  shows "case x of
           Inl (st', r, b) \<Rightarrow>
             r = - 1 \<and> extends_by (\<lambda>e. (directions_differ K \<longrightarrow> \<not> is_write_request K (fst e))) st st' \<and> files st' = files st
         | Inr (st', fl', i', b') \<Rightarrow>
             extends_by (\<lambda>e. (directions_differ K \<longrightarrow> \<not> is_write_request K (fst e)) \<and> acknowledged e) st st' \<and>
             files st' = files st \<and> f_size fl' = f_size fl \<and> (i < len \<longrightarrow> i < i')"
proof (cases "get_block (devices st) fl")
  case None
  with assms(1) show ?thesis by (simp add: lcread_body_def)
next
  case (Some g)
  show ?thesis
  proof (cases g)
    case None
    with Some assms(1) show ?thesis by (auto simp add: lcread_body_def extends_by_refl)
  next
    case g: (Some t)
    obtain d s b where t: "t = (d, s, b)" by (cases t) auto
    show ?thesis
    proof (cases "d = - 1")
      case True
      with Some g t assms(1) show ?thesis by (auto simp add: lcread_body_def extends_by_refl)
    next
      case False
      from assms(1) Some g t False obtain st1 res where f: "lcread_fetch K st d s b = Some (st1, res)"
        by (auto simp add: lcread_body_def Let_def split: option.splits)
      from lcread_fetch_extends [OF f]
      have e: "extends_by (\<lambda>e. (directions_differ K \<longrightarrow> \<not> is_write_request K (fst e)) \<and> (res \<noteq> None \<longrightarrow> acknowledged e)) st st1"
        and k: "files st1 = files st" by simp_all
      show ?thesis
      proof (cases res)
        case None
        with assms(1) Some g t False f have "x = Inl (st1, - 1, buf)"
          by (simp add: lcread_body_def)
        with e k show ?thesis by (auto elim: extends_by_mono)
      next
        case r: (Some temp)
        have e': "extends_by (\<lambda>e. (directions_differ K \<longrightarrow> \<not> is_write_request K (fst e)) \<and> acknowledged e) st st1"
          using e r by (auto elim: extends_by_mono)
        from assms(1) Some g t False f r c_rem_less [of "f_pos fl"]
        have "\<exists>fl' i' b'. x = Inr (st1, fl', i', b') \<and> f_size fl' = f_size fl \<and> (i < len \<longrightarrow> i < i')"
          by (auto simp add: lcread_body_def Let_def split: if_splits)
        with e' k show ?thesis by auto
      qed
    qed
  qed
qed

lemma lcread_loop_extends:
  shows "lcread_loop K st fl len i buf = Some x \<Longrightarrow>
     (case x of
        Inl (st', r, b) \<Rightarrow>
          r = - 1 \<and> extends_by (\<lambda>e. (directions_differ K \<longrightarrow> \<not> is_write_request K (fst e))) st st' \<and> files st' = files st
      | Inr (st', fl', b') \<Rightarrow>
          extends_by (\<lambda>e. (directions_differ K \<longrightarrow> \<not> is_write_request K (fst e)) \<and> acknowledged e) st st' \<and>
          files st' = files st \<and> f_size fl' = f_size fl)"
proof (induction n \<equiv> "len - i" arbitrary: st fl i buf rule: less_induct)
  case less
  show ?case
  proof (cases "i < len")
    case False
    with less.prems show ?thesis by (auto simp add: extends_by_refl)
  next
    case True
    from less.prems True obtain y where b: "lcread_body K st fl len i buf = Some y"
      by (auto split: option.splits)
    note bb = lcread_body_extends [OF b]
    show ?thesis
    proof (cases y)
      case (Inl a)
      with less.prems True b have "x = Inl a" by simp
      with bb Inl show ?thesis by simp
    next
      case (Inr c)
      obtain st1 fl1 i1 buf1 where c: "c = (st1, fl1, i1, buf1)" by (cases c) auto
      from less.prems True b Inr c have l: "lcread_loop K st1 fl1 len i1 buf1 = Some x" by simp
      from bb Inr c True
      have e: "extends_by (\<lambda>e. (directions_differ K \<longrightarrow> \<not> is_write_request K (fst e)) \<and> acknowledged e) st st1"
        and k: "files st1 = files st" "f_size fl1 = f_size fl" "i < i1" by simp_all
      have d: "len - i1 < len - i" using True k(3) by simp
      note ih = less.hyps [OF d l]
      show ?thesis
      proof (cases x)
        case (Inl a)
        obtain st' r b' where a: "a = (st', r, b')" by (cases a) auto
        from ih Inl a have "r = - 1" "extends_by (\<lambda>e. (directions_differ K \<longrightarrow> \<not> is_write_request K (fst e))) st1 st'"
          "files st' = files st1" by simp_all
        moreover have "extends_by (\<lambda>e. (directions_differ K \<longrightarrow> \<not> is_write_request K (fst e))) st st1"
          using e by (auto elim: extends_by_mono)
        ultimately show ?thesis using Inl a k by (auto intro: extends_by_trans)
      next
        case (Inr a)
        obtain st' fl' b' where a: "a = (st', fl', b')" by (cases a) auto
        from ih Inr a
        have "extends_by (\<lambda>e. (directions_differ K \<longrightarrow> \<not> is_write_request K (fst e)) \<and> acknowledged e) st1 st'"
          "files st' = files st1" "f_size fl' = f_size fl1" by simp_all
        with e k Inr a show ?thesis by (auto intro: extends_by_trans)
      qed
    qed
  qed
qed

lemma validate_fh_file:
  "validate_fh st fh = Some (Some fl) \<Longrightarrow> fl = files st (nat fh) \<and> 0 \<le> fh \<and> fh \<le> file_handle st"
  by (auto simp add: validate_fh_def split: if_splits)

lemma lcread_extends:
  assumes "lcread K st fh buf len = Some (st', r, b)"
  shows "extends_by (\<lambda>e. (directions_differ K \<longrightarrow> \<not> is_write_request K (fst e)) \<and> (r \<noteq> - 1 \<longrightarrow> acknowledged e)) st st' \<and>
         (\<forall>k. f_size (files st' k) = f_size (files st k))"
proof (cases "validate_fh st fh")
  case None
  with assms(1) show ?thesis by (simp add: lcread_def)
next
  case (Some v)
  show ?thesis
  proof (cases v)
    case None
    with Some assms(1) show ?thesis by (auto simp add: lcread_def extends_by_refl)
  next
    case v: (Some fl)
    from validate_fh_file [of st fh fl] Some v have fl: "fl = files st (nat fh)" by simp
    show ?thesis
    proof (cases "f_size fl = 0")
      case True
      with Some v assms(1) show ?thesis by (auto simp add: lcread_def extends_by_refl)
    next
      case False
      define len1 where "len1 = (if to_size_t (f_pos fl + int len) > to_size_t (f_size fl)
                         then to_size_t (f_size fl - f_pos fl) else len)"
      from assms(1) Some v False obtain x where l: "lcread_loop K st fl len1 0 buf = Some x"
        by (auto simp add: lcread_def Let_def len1_def split: option.splits)
      note ll = lcread_loop_extends [OF l]
      show ?thesis
      proof (cases x)
        case (Inl a)
        obtain st1 r1 b1 where a: "a = (st1, r1, b1)" by (cases a) auto
        from assms(1) Some v False l Inl a have "st' = st1" "r = r1"
          by (simp_all add: lcread_def Let_def len1_def)
        with ll Inl a show ?thesis by (auto elim: extends_by_mono)
      next
        case (Inr a)
        obtain st1 fl1 b1 where a: "a = (st1, fl1, b1)" by (cases a) auto
        from assms(1) Some v False l Inr a
        have s: "st' = st1\<lparr>files := (files st1)(nat fh := fl1)\<rparr>"
          by (simp add: lcread_def Let_def len1_def)
        from ll Inr a have "extends_by (\<lambda>e. (directions_differ K \<longrightarrow> \<not> is_write_request K (fst e)) \<and> acknowledged e) st st1"
          "files st1 = files st" "f_size fl1 = f_size fl" by simp_all
        with s fl show ?thesis by (auto elim: extends_by_mono)
      qed
    qed
  qed
qed

lemma lcseek_extends:
  assumes "lcseek st fh off = Some (st', r)"
  shows "extends_by (\<lambda>e. False) st st' \<and> (\<forall>k. f_size (files st' k) = f_size (files st k)) \<and>
         devices st' = devices st \<and> cache st' = cache st \<and> client st' = client st"
  using assms validate_fh_file [of st fh]
  by (auto simp add: lcseek_def Let_def extends_by_refl split: option.splits if_splits)


lemma extends_by_True: "extends_by P st st' \<Longrightarrow> extends_by (\<lambda>e. True) st st'"
  by (erule extends_by_mono) simp

lemma lcwrite_splice_facts:
  assumes "lcwrite_splice fl temp buf len i = (t, f1, i1)"
  shows "f_size f1 = f_size fl \<and> (i < len \<longrightarrow> i < i1)"
  using assms c_rem_less [of "f_pos fl"]
  by (auto simp add: lcwrite_splice_def Let_def split: if_splits)

lemma lcwrite_body_extends:
  assumes "lcwrite_body K st fh fl buf len i = Some x"
  shows "case x of
           Inl (st', r) \<Rightarrow>
             r = - 1 \<and> extends_by (\<lambda>e. True) st st' \<and>
             ((\<forall>k. 0 \<le> f_size (files st k)) \<longrightarrow> (\<forall>k. 0 \<le> f_size (files st' k)))
         | Inr (st', fl', i') \<Rightarrow>
             extends_by (\<lambda>e. directions_differ K \<longrightarrow> is_write_request K (fst e) \<longrightarrow> acknowledged e) st st' \<and>
             (i < len \<longrightarrow> i < i') \<and>
             ((\<forall>k. 0 \<le> f_size (files st k)) \<and> 0 \<le> f_size fl \<longrightarrow>
                (\<forall>k. 0 \<le> f_size (files st' k)) \<and> 0 \<le> f_size fl')"
proof (cases "get_block (devices st) fl")
  case None
  with assms(1) show ?thesis by (simp add: lcwrite_body_def)
next
  case (Some g)
  show ?thesis
  proof (cases g)
    case None
    with Some assms(1) show ?thesis by (auto simp add: lcwrite_body_def extends_by_refl)
  next
    case g: (Some t)
    obtain d s b where t: "t = (d, s, b)" by (cases t) auto
    show ?thesis
    proof (cases "d = - 1")
      case True
      with Some g t assms(1) show ?thesis by (auto simp add: lcwrite_body_def extends_by_refl)
    next
      case False
      let ?off = "word_of_int (f_pos fl - c_rem (f_pos fl) 256) :: 64 word"
      let ?frm = "create_lcloud_registers 0 0 (LC_BLOCK_XFER K) (word_of_int d)
                    (LC_XFER_WRITE K) (word_of_int s) (word_of_int b)"
      from assms(1) Some g t False obtain st1 r1 where sk: "lcseek st fh ?off = Some (st1, r1)"
        by (auto simp add: lcwrite_body_def Let_def split: option.splits)
      from assms(1) Some g t False sk obtain st2 r2 temp
        where rd: "lcread K st1 fh (replicate 256 0) 256 = Some (st2, r2, temp)"
        by (auto simp add: lcwrite_body_def Let_def split: option.splits)
      obtain temp1 fl1 i1 where sp: "lcwrite_splice fl temp buf len i = (temp1, fl1, i1)"
        by (cases "lcwrite_splice fl temp buf len i") auto
      obtain st3 res3 where rq: "request K st2 ?frm temp1 (LC_BLOCK_XFER K) = (st3, res3)"
        by (cases "request K st2 ?frm temp1 (LC_BLOCK_XFER K)") auto
      from lcseek_extends [OF sk] have e1: "extends_by (\<lambda>e. False) st st1"
        and z1: "\<forall>k. f_size (files st1 k) = f_size (files st k)" by simp_all
      from lcread_extends [OF rd]
      have e2: "extends_by (\<lambda>e. (directions_differ K \<longrightarrow> \<not> is_write_request K (fst e))) st1 st2"
        and z2: "\<forall>k. f_size (files st2 k) = f_size (files st1 k)"
        by (auto elim: extends_by_mono)
      from request_extends [OF rq]
      have e3: "extends_by (\<lambda>e. fst e = ?frm \<and> (res3 \<noteq> None \<longrightarrow> passed (LC_BLOCK_XFER K) (snd e))) st2 st3"
        and z3: "files st3 = files st2" by simp_all
      from lcwrite_splice_facts [OF sp] have sf: "f_size fl1 = f_size fl" "i < len \<longrightarrow> i < i1"
        by simp_all
      have z: "(\<forall>k. 0 \<le> f_size (files st k)) \<longrightarrow> (\<forall>k. 0 \<le> f_size (files st3 k))"
        using z1 z2 z3 by simp
      show ?thesis
      proof (cases res3)
        case None
        with assms(1) Some g t False sk rd sp rq have x: "x = Inl (st3, - 1)"
          by (simp add: lcwrite_body_def Let_def)
        have "extends_by (\<lambda>e. True) st st3"
          using e1 [THEN extends_by_True] e2 [THEN extends_by_True] e3 [THEN extends_by_True]
          by (blast intro: extends_by_trans)
        with x z show ?thesis by simp
      next
        case r3: (Some a)
        obtain regs temp2 where a: "a = (regs, temp2)" by (cases a) auto
        have e3': "extends_by (\<lambda>e. directions_differ K \<longrightarrow> is_write_request K (fst e) \<longrightarrow> acknowledged e) st2 st3"
        proof (rule extends_by_mono [OF e3])
          fix e :: "LCloudRegisterFrame \<times> LCloudRegisterFrame"
          assume "fst e = ?frm \<and> (res3 \<noteq> None \<longrightarrow> passed (LC_BLOCK_XFER K) (snd e))"
          with r3 passed_acknowledged [of "LC_BLOCK_XFER K" "snd e"]
          show "directions_differ K \<longrightarrow> is_write_request K (fst e) \<longrightarrow> acknowledged e" by (cases e) auto
        qed
        have e: "extends_by (\<lambda>e. directions_differ K \<longrightarrow> is_write_request K (fst e) \<longrightarrow> acknowledged e) st st3"
        proof -
          have "extends_by (\<lambda>e. directions_differ K \<longrightarrow> is_write_request K (fst e) \<longrightarrow> acknowledged e) st st1"
            using e1 by (auto elim: extends_by_mono)
          moreover have "extends_by (\<lambda>e. directions_differ K \<longrightarrow> is_write_request K (fst e) \<longrightarrow> acknowledged e) st1 st2"
            using e2 by (auto elim: extends_by_mono)
          ultimately show ?thesis using e3' by (blast intro: extends_by_trans)
        qed
        from assms(1) Some g t False sk rd sp rq r3 a
        obtain c4 r4 where pc: "lcloud_putcache (cache st3) d (word_of_int s) (word_of_int b) temp2 = Some (c4, r4)"
          by (auto simp add: lcwrite_body_def Let_def split: option.splits)
        have et: "extends_by (\<lambda>e. True) st st3"
          using e by (rule extends_by_True)
        from assms(1) Some g t False sk rd sp rq r3 a pc e et z sf
        show ?thesis
          by (auto simp add: lcwrite_body_def Let_def split: option.splits if_splits)
      qed
    qed
  qed
qed

lemma lcwrite_loop_extends:
  shows "lcwrite_loop K st fh fl buf len i = Some x \<Longrightarrow>
     (case x of
        Inl (st', r) \<Rightarrow>
          r = - 1 \<and> extends_by (\<lambda>e. True) st st' \<and>
          ((\<forall>k. 0 \<le> f_size (files st k)) \<and> 0 \<le> f_size fl \<longrightarrow> (\<forall>k. 0 \<le> f_size (files st' k)))
      | Inr (st', fl') \<Rightarrow>
          extends_by (\<lambda>e. directions_differ K \<longrightarrow> is_write_request K (fst e) \<longrightarrow> acknowledged e) st st' \<and>
          ((\<forall>k. 0 \<le> f_size (files st k)) \<and> 0 \<le> f_size fl \<longrightarrow> (\<forall>k. 0 \<le> f_size (files st' k))))"
proof (induction n \<equiv> "len - i" arbitrary: st fl i rule: less_induct)
  case less
  show ?case
  proof (cases "i < len")
    case False
    with less.prems show ?thesis by (auto simp add: extends_by_refl)
  next
    case True
    from less.prems True obtain y where b: "lcwrite_body K st fh fl buf len i = Some y"
      by (auto split: option.splits)
    note bb = lcwrite_body_extends [OF b]
    show ?thesis
    proof (cases y)
      case (Inl a)
      with less.prems True b have "x = Inl a" by simp
      with bb Inl show ?thesis by auto
    next
      case (Inr c)
      obtain st1 fl1 i1 where c: "c = (st1, fl1, i1)" by (cases c) auto
      from less.prems True b Inr c have l: "lcwrite_loop K st1 fh fl1 buf len i1 = Some x" by simp
      from bb Inr c True
      have e: "extends_by (\<lambda>e. directions_differ K \<longrightarrow> is_write_request K (fst e) \<longrightarrow> acknowledged e) st st1"
        and k: "i < i1"
        and z: "(\<forall>k. 0 \<le> f_size (files st k)) \<and> 0 \<le> f_size fl \<longrightarrow>
                (\<forall>k. 0 \<le> f_size (files st1 k)) \<and> 0 \<le> f_size fl1" by simp_all
      have d: "len - i1 < len - i" using True k by simp
      note ih = less.hyps [OF d l]
      show ?thesis
      proof (cases x)
        case (Inl a)
        obtain st' r where a: "a = (st', r)" by (cases a) auto
        from ih Inl a have "r = - 1" "extends_by (\<lambda>e. True) st1 st'"
          "(\<forall>k. 0 \<le> f_size (files st1 k)) \<and> 0 \<le> f_size fl1 \<longrightarrow> (\<forall>k. 0 \<le> f_size (files st' k))"
          by simp_all
        with e [THEN extends_by_True] z Inl a show ?thesis
          by (auto intro: extends_by_trans)
      next
        case (Inr a)
        obtain st' fl' where a: "a = (st', fl')" by (cases a) auto
        from ih Inr a
        have "extends_by (\<lambda>e. directions_differ K \<longrightarrow> is_write_request K (fst e) \<longrightarrow> acknowledged e) st1 st'"
          "(\<forall>k. 0 \<le> f_size (files st1 k)) \<and> 0 \<le> f_size fl1 \<longrightarrow> (\<forall>k. 0 \<le> f_size (files st' k))"
          by simp_all
        with e z Inr a show ?thesis by (auto intro: extends_by_trans)
      qed
    qed
  qed
qed

lemma lcwrite_extends:
  assumes "lcwrite K st fh buf len = Some (st', r)"
  shows "extends_by (\<lambda>e. r \<noteq> - 1 \<longrightarrow> directions_differ K \<longrightarrow> is_write_request K (fst e) \<longrightarrow> acknowledged e) st st' \<and>
         ((\<forall>k. 0 \<le> f_size (files st k)) \<longrightarrow> (\<forall>k. 0 \<le> f_size (files st' k)))"
proof (cases "validate_fh st fh")
  case None
  with assms(1) show ?thesis by (simp add: lcwrite_def)
next
  case (Some v)
  show ?thesis
  proof (cases v)
    case None
    with Some assms(1) show ?thesis by (auto simp add: lcwrite_def extends_by_refl)
  next
    case v: (Some fl)
    from validate_fh_file [of st fh fl] Some v have fl: "fl = files st (nat fh)" by simp
    define pre where "pre = (if f_size fl = 0 then
                   (case allocate_block (devices st) of
                      None \<Rightarrow> None
                    | Some (devs, None) \<Rightarrow> Some (Inl (st\<lparr>devices := devs\<rparr>))
                    | Some (devs, Some (d, s, b)) \<Rightarrow>
                        Some (Inr (st\<lparr>devices := devs\<rparr>,
                                   fl\<lparr>f_dev_id := Some d, f_sector := Some s, f_block := Some b\<rparr>)))
                 else Some (Inr (st, fl)))"
    from assms(1) Some v obtain p where p: "pre = Some p"
      by (auto simp add: lcwrite_def pre_def split: option.splits)
    show ?thesis
    proof (cases p)
      case (Inl st1)
      with assms(1) Some v p have "st' = st1" "r = - 1" by (simp_all add: lcwrite_def pre_def)
      moreover from p Inl have "file_handle st1 = file_handle st \<and> power_ons st1 = power_ons st \<and>
          exchanges st1 = exchanges st \<and> files st1 = files st"
        by (auto simp add: pre_def split: if_splits option.splits prod.splits)
      ultimately show ?thesis by (simp add: extends_by_iff)
    next
      case (Inr a)
      obtain st1 fl1 where a: "a = (st1, fl1)" by (cases a) auto
      from p Inr a have s1: "file_handle st1 = file_handle st \<and> power_ons st1 = power_ons st \<and>
          exchanges st1 = exchanges st \<and> files st1 = files st" and f1: "f_size fl1 = f_size fl"
        by (auto simp add: pre_def split: if_splits option.splits prod.splits)
      from assms(1) Some v p Inr a obtain x where l: "lcwrite_loop K st1 fh fl1 buf len 0 = Some x"
        by (auto simp add: lcwrite_def pre_def split: option.splits)
      note ll = lcwrite_loop_extends [OF l]
      from s1 have q: "extends_by P st st1" "files st1 = files st" for P
        by (simp_all add: extends_by_iff)
      have sz: "(\<forall>k. 0 \<le> f_size (files st1 k)) \<and> 0 \<le> f_size fl1" if "\<forall>k. 0 \<le> f_size (files st k)"
        using that q(2) f1 fl by simp
      show ?thesis
      proof (cases x)
        case (Inl b)
        obtain st2 r2 where b: "b = (st2, r2)" by (cases b) auto
        from assms(1) Some v p Inr a l Inl b have s: "st' = st2" "r = r2"
          by (simp_all add: lcwrite_def pre_def)
        from ll Inl b have i: "r2 = - 1" "extends_by (\<lambda>e. True) st1 st2"
          "(\<forall>k. 0 \<le> f_size (files st1 k)) \<and> 0 \<le> f_size fl1 \<longrightarrow> (\<forall>k. 0 \<le> f_size (files st2 k))"
          by simp_all
        have "extends_by (\<lambda>e. True) st st2"
          using q(1) [of "\<lambda>e. True"] i(2) by (rule extends_by_trans)
        then have "extends_by (\<lambda>e. r \<noteq> - 1 \<longrightarrow> directions_differ K \<longrightarrow> is_write_request K (fst e) \<longrightarrow> acknowledged e) st st'"
          using s i(1) by (auto elim: extends_by_mono)
        moreover have "(\<forall>k. 0 \<le> f_size (files st k)) \<longrightarrow> (\<forall>k. 0 \<le> f_size (files st' k))"
          using sz i(3) s by blast
        ultimately show ?thesis by blast
      next
        case r: (Inr b)
        obtain st2 fl2 where b: "b = (st2, fl2)" by (cases b) auto
        from assms(1) Some v p Inr a l r b have s: "st' = st2"
          by (simp_all add: lcwrite_def pre_def)
        from ll r b have i: "extends_by (\<lambda>e. directions_differ K \<longrightarrow> is_write_request K (fst e) \<longrightarrow> acknowledged e) st1 st2"
          "(\<forall>k. 0 \<le> f_size (files st1 k)) \<and> 0 \<le> f_size fl1 \<longrightarrow> (\<forall>k. 0 \<le> f_size (files st2 k))"
          by simp_all
        have "extends_by (\<lambda>e. directions_differ K \<longrightarrow> is_write_request K (fst e) \<longrightarrow> acknowledged e) st st2"
          using q(1) [of "\<lambda>e. directions_differ K \<longrightarrow> is_write_request K (fst e) \<longrightarrow> acknowledged e"] i(1)
          by (rule extends_by_trans)
        then have "extends_by (\<lambda>e. r \<noteq> - 1 \<longrightarrow> directions_differ K \<longrightarrow> is_write_request K (fst e) \<longrightarrow> acknowledged e) st st'"
          using s by (auto elim: extends_by_mono)
        moreover have "(\<forall>k. 0 \<le> f_size (files st k)) \<longrightarrow> (\<forall>k. 0 \<le> f_size (files st' k))"
          using sz i(2) s by blast
        ultimately show ?thesis by blast
      qed
    qed
  qed
qed



lemma lcopen_lookup_found:
  "lcopen_lookup st path fh0 = Some (Some fh) \<Longrightarrow> fh0 \<le> fh \<and> fh < file_handle st \<and> 0 \<le> fh"
proof (induction n \<equiv> "nat (file_handle st - fh0)" arbitrary: fh0)
  case 0
  then have "\<not> fh0 < file_handle st" by simp
  with "0.prems" show ?case by simp
next
  case (Suc n)
  then have lt: "fh0 < file_handle st" and n: "n = nat (file_handle st - (fh0 + 1))" by simp_all
  from Suc.prems lt have b: "0 \<le> fh0 \<and> fh0 < 0xfff" by (auto split: if_splits)
  show ?case
  proof (cases "Name_of_file (nat fh0) = s_addr path")
    case True
    with Suc.prems lt b have "fh = fh0" by simp
    with lt b show ?thesis by simp
  next
    case False
    with Suc.prems lt b have "lcopen_lookup st path (fh0 + 1) = Some (Some fh)" by simp
    from Suc.hyps(1) [OF n this] show ?thesis by simp
  qed
qed

lemma lcopen_after_power_on:
  assumes "lcopen_lookup st1 path 0 = Some l"
    and "(case l of
            Some fh \<Rightarrow>
              if f_opened (files st1 (nat fh)) = 1 then Some (st1, - 1)
              else Some (st1\<lparr>files := (files st1)(nat fh :=
                           (files st1 (nat fh))\<lparr>f_pos := 0, f_opened := 1\<rparr>)\<rparr>, fh)
          | None \<Rightarrow>
              (let fh = (if 0 < file_handle st1 then file_handle st1 else 0) in
               if \<not> (0 \<le> fh \<and> fh < 0xfff) then None
               else
                 Some (st1\<lparr>file_handle := file_handle st1 + 1,
                          files := (files st1)(nat fh :=
                            \<lparr>f_fh = file_handle st1 + 1,
                             f_name = take 259 (takeWhile (\<lambda>c. c \<noteq> CHR 0x00) (s_chars path)),
                             f_pos = 0, f_size = 0, f_block = None, f_sector = None,
                             f_dev_id = None, f_opened = 1\<rparr>)\<rparr>, fh))) = Some (st', r)"
  shows "file_handle st1 \<le> file_handle st' \<and> power_ons st' = power_ons st1 \<and>
         devices st' = devices st1 \<and> cache st' = cache st1 \<and> client st' = client st1 \<and>
         exchanges st' = exchanges st1 \<and>
         (r \<noteq> - 1 \<and> 0 \<le> file_handle st1 \<longrightarrow> 0 < file_handle st') \<and>
         ((\<forall>k. 0 \<le> f_size (files st1 k)) \<longrightarrow> (\<forall>k. 0 \<le> f_size (files st' k)))"
proof (cases l)
  case None
  with assms(2) show ?thesis by (auto simp add: Let_def split: if_splits)
next
  case (Some fh)
  from lcopen_lookup_found [of st1 path 0 fh] assms(1) Some
  have "fh < file_handle st1" "0 \<le> fh" by simp_all
  with assms(2) Some show ?thesis by (auto split: if_splits)
qed

lemma lcopen_facts:
  assumes "lcopen K st p = Some (st', r)"
  shows "file_handle st \<le> file_handle st' \<and>
       (file_handle st \<noteq> 0 \<longrightarrow> power_ons st' = power_ons st \<and> devices st' = devices st \<and>
          cache st' = cache st \<and> client st' = client st \<and> exchanges st' = exchanges st) \<and>
       (file_handle st = 0 \<longrightarrow> power_ons st' = power_ons st + 1) \<and>
       (r \<noteq> - 1 \<and> 0 \<le> file_handle st \<longrightarrow> 0 < file_handle st') \<and>
       length (exchanges st) \<le> length (exchanges st') \<and>
       take (length (exchanges st)) (exchanges st') = exchanges st \<and>
       (r \<noteq> - 1 \<longrightarrow> list_all acknowledged (new_exchanges st st')) \<and>
       ((\<forall>k. 0 \<le> f_size (files st k)) \<longrightarrow> (\<forall>k. 0 \<le> f_size (files st' k)))"
proof -
  obtain st1 r1 where o: "(if file_handle st = 0 then device_power_on K st else (st, 0)) = (st1, r1)"
    by (cases "if file_handle st = 0 then device_power_on K st else (st, 0)") auto
  have p: "file_handle st1 = file_handle st \<and> files st1 = files st \<and>
      (file_handle st \<noteq> 0 \<longrightarrow> st1 = st \<and> r1 = 0) \<and>
      (file_handle st = 0 \<longrightarrow> power_ons st1 = power_ons st + 1) \<and>
      length (exchanges st) \<le> length (exchanges st1) \<and>
      take (length (exchanges st)) (exchanges st1) = exchanges st \<and>
      (r1 \<noteq> - 1 \<longrightarrow> list_all acknowledged (new_exchanges st st1))"
  proof (cases "file_handle st = 0")
    case False
    with o show ?thesis by (simp add: new_exchanges_def)
  next
    case True
    with o have d: "device_power_on K st = (st1, r1)" by simp
    from device_power_on_extends [OF d] True show ?thesis
      by (auto simp add: extends_by_def new_exchanges_def list_all_iff)
  qed
  show ?thesis
  proof (cases "r1 = - 1")
    case True
    with assms o have "st' = st1" "r = - 1" by (simp_all add: lcopen_def)
    with p True show ?thesis by auto
  next
    case False
    from assms o False obtain l where l: "lcopen_lookup st1 p 0 = Some l"
      by (cases "lcopen_lookup st1 p 0") (auto simp add: lcopen_def)
    from assms o False l have "(case l of
            Some fh \<Rightarrow>
              if f_opened (files st1 (nat fh)) = 1 then Some (st1, - 1)
              else Some (st1\<lparr>files := (files st1)(nat fh :=
                           (files st1 (nat fh))\<lparr>f_pos := 0, f_opened := 1\<rparr>)\<rparr>, fh)
          | None \<Rightarrow>
              (let fh = (if 0 < file_handle st1 then file_handle st1 else 0) in
               if \<not> (0 \<le> fh \<and> fh < 0xfff) then None
               else
                 Some (st1\<lparr>file_handle := file_handle st1 + 1,
                          files := (files st1)(nat fh :=
                            \<lparr>f_fh = file_handle st1 + 1,
                             f_name = take 259 (takeWhile (\<lambda>c. c \<noteq> CHR 0x00) (s_chars p)),
                             f_pos = 0, f_size = 0, f_block = None, f_sector = None,
                             f_dev_id = None, f_opened = 1\<rparr>)\<rparr>, fh))) = Some (st', r)"
      by (simp add: lcopen_def split: option.splits)
    from lcopen_after_power_on [OF l this] p False show ?thesis
      by (auto simp add: new_exchanges_def)
  qed
qed



lemma request_exchange:
  assumes "request K st frm buf op = (st', Some res)"
  shows "\<exists>rfrm. exchanges st' = exchanges st @ [(frm, rfrm)] \<and> passed op rfrm"
  using assms
  by (auto simp add: request_def bus_request_def passed_def split: if_splits prod.splits)

lemma lcopen_first_power_on:
  assumes "lcopen K st p = Some (st', r)" "r \<noteq> - 1" "file_handle st = 0"
  shows "snd (device_power_on K st) \<noteq> - 1"
  using assms by (auto simp add: lcopen_def split: prod.splits if_splits)

lemma device_power_on_first_request:
  assumes "snd (device_power_on K st) \<noteq> - 1"
  shows "\<exists>st1 res. request K (st\<lparr>power_ons := power_ons st + 1\<rparr>)
           (create_lcloud_registers 0 0 (LC_POWER_ON K) 0 0 0 0) [] (LC_POWER_ON K) = (st1, Some res)"
proof (cases "request K (st\<lparr>power_ons := power_ons st + 1\<rparr>)
           (create_lcloud_registers 0 0 (LC_POWER_ON K) 0 0 0 0) [] (LC_POWER_ON K)")
  case (Pair st1 res)
  with assms show ?thesis by (cases res) (simp_all add: device_power_on_def)
qed

section \<open>The example runs\<close>

text \<open>The values that the calls of the example runs return, by evaluation.\<close>

lemma example_run_result: "example_run = Some (0, 2, 0, 2, [0x00, 0x00])"
  by code_simp



section \<open>Acknowledgements\<close>

text \<open>Claim C4, as amended.  A request is accepted (the condition that follows it in
  \<^verbatim>\<open>lcloud_filesys.c\<close> is false) only when the frame returned for it has \<open>b0 = 1\<close>,
  \<open>b1 = 1\<close> and the code expected in \<open>c0\<close>.  \<^verbatim>\<open>device_power_on\<close>, \<^verbatim>\<open>lcopen\<close> and \<^verbatim>\<open>lcread\<close>
  return a value other than \<open>- 1\<close> only when every exchange they made was acknowledged in
  that way, with the code of the request in \<open>c0\<close>; \<^verbatim>\<open>lcwrite\<close> returns a value other than
  \<open>- 1\<close> only when every transfer of a block to a device that it made was (the two
  directions of a transfer having different codes).\<close>

theorem acknowledgement_convention:
  "(request K st frm buf op = (st1, Some res) \<longrightarrow>
      (\<exists>rfrm. exchanges st1 = exchanges st @ [(frm, rfrm)] \<and> passed op rfrm)) \<and>
   (device_power_on K st = (st2, r2) \<and> r2 \<noteq> - 1 \<longrightarrow>
      list_all acknowledged (new_exchanges st st2)) \<and>
   (lcopen K st path = Some (st3, r3) \<and> r3 \<noteq> - 1 \<longrightarrow>
      list_all acknowledged (new_exchanges st st3)) \<and>
   (lcread K st fh rbuf rlen = Some (st4, r4, b4) \<and> r4 \<noteq> - 1 \<longrightarrow>
      list_all acknowledged (new_exchanges st st4)) \<and>
   (directions_differ K \<and> lcwrite K st fh wbuf wlen = Some (st5, r5) \<and> r5 \<noteq> - 1 \<longrightarrow>
      list_all (\<lambda>e. is_write_request K (fst e) \<longrightarrow> acknowledged e) (new_exchanges st st5))"
proof -
  have 1: "request K st frm buf op = (st1, Some res) \<longrightarrow>
      (\<exists>rfrm. exchanges st1 = exchanges st @ [(frm, rfrm)] \<and> passed op rfrm)"
    using request_exchange by blast
  have 2: "device_power_on K st = (st2, r2) \<and> r2 \<noteq> - 1 \<longrightarrow>
      list_all acknowledged (new_exchanges st st2)"
  proof
    assume a: "device_power_on K st = (st2, r2) \<and> r2 \<noteq> - 1"
    then have "device_power_on K st = (st2, r2)" by simp
    from device_power_on_extends [OF this] a
    show "list_all acknowledged (new_exchanges st st2)"
      by (simp add: extends_by_def new_exchanges_def)
  qed
  have 3: "lcopen K st path = Some (st3, r3) \<and> r3 \<noteq> - 1 \<longrightarrow>
      list_all acknowledged (new_exchanges st st3)"
  proof
    assume a: "lcopen K st path = Some (st3, r3) \<and> r3 \<noteq> - 1"
    then have "lcopen K st path = Some (st3, r3)" by simp
    from lcopen_facts [OF this] a show "list_all acknowledged (new_exchanges st st3)" by simp
  qed
  have 4: "lcread K st fh rbuf rlen = Some (st4, r4, b4) \<and> r4 \<noteq> - 1 \<longrightarrow>
      list_all acknowledged (new_exchanges st st4)"
  proof
    assume a: "lcread K st fh rbuf rlen = Some (st4, r4, b4) \<and> r4 \<noteq> - 1"
    then have "lcread K st fh rbuf rlen = Some (st4, r4, b4)" by simp
    from lcread_extends [OF this] a show "list_all acknowledged (new_exchanges st st4)"
      by (simp add: extends_by_def list_all_iff)
  qed
  have 5: "directions_differ K \<and> lcwrite K st fh wbuf wlen = Some (st5, r5) \<and> r5 \<noteq> - 1 \<longrightarrow>
      list_all (\<lambda>e. is_write_request K (fst e) \<longrightarrow> acknowledged e) (new_exchanges st st5)"
  proof
    assume a: "directions_differ K \<and> lcwrite K st fh wbuf wlen = Some (st5, r5) \<and> r5 \<noteq> - 1"
    then have "lcwrite K st fh wbuf wlen = Some (st5, r5)" by simp
    from lcwrite_extends [OF this] a
    show "list_all (\<lambda>e. is_write_request K (fst e) \<longrightarrow> acknowledged e) (new_exchanges st st5)"
      by (simp add: extends_by_def list_all_iff)
  qed
  from 1 2 3 4 5 show ?thesis by blast
qed

text \<open>An instance of the statement for claim C4, on the example run: the first request of
  the power-on is accepted with an acknowledged response; \<^verbatim>\<open>device_power_on\<close> and the calls
  of \<^verbatim>\<open>lcopen\<close>, \<^verbatim>\<open>lcwrite\<close> and \<^verbatim>\<open>lcread\<close> return values other than \<open>- 1\<close>, and the
  exchanges they made are acknowledged.\<close>

theorem acknowledgement_convention_witness:
  "directions_differ example_constants \<and>
   (\<exists>st0 res rfrm.
      request example_constants ((fs_startup example_network)\<lparr>power_ons := 1\<rparr>)
        (create_lcloud_registers 0 0 (LC_POWER_ON example_constants) 0 0 0 0) []
        (LC_POWER_ON example_constants) = (st0, Some res) \<and>
      exchanges st0 =
        [(create_lcloud_registers 0 0 (LC_POWER_ON example_constants) 0 0 0 0, rfrm)] \<and>
      passed (LC_POWER_ON example_constants) rfrm) \<and>
   snd (device_power_on example_constants (fs_startup example_network)) \<noteq> - 1 \<and>
   list_all acknowledged (new_exchanges (fs_startup example_network)
     (fst (device_power_on example_constants (fs_startup example_network)))) \<and>
   (\<exists>st1 st2 st3 st4.
      lcopen example_constants (fs_startup example_network) example_path = Some (st1, 0) \<and>
      list_all acknowledged (new_exchanges (fs_startup example_network) st1) \<and>
      lcwrite example_constants st1 0 [0x00, 0x41] 2 = Some (st2, 2) \<and>
      list_all (\<lambda>e. is_write_request example_constants (fst e) \<longrightarrow> acknowledged e)
        (new_exchanges st1 st2) \<and>
      lcseek st2 0 0 = Some (st3, 0) \<and>
      lcread example_constants st3 0 [0xff, 0xff] 2 = Some (st4, 2, [0x00, 0x00]) \<and>
      list_all acknowledged (new_exchanges st3 st4))"
proof -
  let ?K = example_constants
  let ?s = "fs_startup example_network"
  let ?f = "create_lcloud_registers 0 0 (LC_POWER_ON ?K) 0 0 0 0"
  have d: "directions_differ ?K"
    by (simp add: directions_differ_def example_constants_def)
  from example_run_result obtain st1 st2 st3 st4 where
    o: "lcopen ?K ?s example_path = Some (st1, 0)" and
    w: "lcwrite ?K st1 0 [0x00, 0x41] 2 = Some (st2, 2)" and
    s: "lcseek st2 0 0 = Some (st3, 0)" and
    r: "lcread ?K st3 0 [0xff, 0xff] 2 = Some (st4, 2, [0x00, 0x00])"
    unfolding example_run_def by (auto simp add: bind_eq_Some_conv)
  have p: "snd (device_power_on ?K ?s) \<noteq> - 1"
    using lcopen_first_power_on [OF o] by (simp add: fs_startup_def)
  from device_power_on_first_request [OF p] obtain st0 res where
    q: "request ?K (?s\<lparr>power_ons := power_ons ?s + 1\<rparr>) ?f [] (LC_POWER_ON ?K) = (st0, Some res)"
    by blast
  have "\<exists>rfrm. exchanges st0 = exchanges (?s\<lparr>power_ons := power_ons ?s + 1\<rparr>) @ [(?f, rfrm)] \<and>
      passed (LC_POWER_ON ?K) rfrm"
    using acknowledgement_convention
      [of ?K "?s\<lparr>power_ons := power_ons ?s + 1\<rparr>" ?f "[]" "LC_POWER_ON ?K" st0 res] q
    by simp
  with q have 1: "\<exists>st0 res rfrm.
      request ?K (?s\<lparr>power_ons := 1\<rparr>) ?f [] (LC_POWER_ON ?K) = (st0, Some res) \<and>
      exchanges st0 = [(?f, rfrm)] \<and> passed (LC_POWER_ON ?K) rfrm"
    by (auto simp add: fs_startup_def)
  have 2: "list_all acknowledged (new_exchanges ?s (fst (device_power_on ?K ?s)))"
    using acknowledgement_convention
      [of ?K ?s _ _ _ _ _ "fst (device_power_on ?K ?s)" "snd (device_power_on ?K ?s)"] p
    by simp
  have 3: "list_all acknowledged (new_exchanges ?s st1)"
    using acknowledgement_convention [of ?K ?s _ _ _ _ _ _ _ example_path st1 0] o
    by simp
  have 4: "list_all (\<lambda>e. is_write_request ?K (fst e) \<longrightarrow> acknowledged e) (new_exchanges st1 st2)"
    using acknowledgement_convention
      [of ?K st1 _ _ _ _ _ _ _ _ _ _ 0 _ _ _ _ _ "[0x00, 0x41]" 2 st2 2] w d
    by simp
  have 5: "list_all acknowledged (new_exchanges st3 st4)"
    using acknowledgement_convention
      [of ?K st3 _ _ _ _ _ _ _ _ _ _ 0 "[0xff, 0xff]" 2 st4 2 "[0x00, 0x00]"] r
    by simp
  from d 1 p 2 3 4 5 o w s r show ?thesis by blast
qed

text \<open>Claim C4 as stated, that success needs 15 in \<open>b0\<close> and \<open>b1\<close>, fails: with a peer whose
  three responses have 1 in both fields the first \<^verbatim>\<open>lcopen\<close> of a run returns handle 0, and
  with a peer whose response to the power-on has 15 in both fields it returns \<open>- 1\<close> after
  that response.\<close>

theorem acknowledgement_is_one:
  "example_first_open example_network = Some (0, [(1, 1), (1, 1), (1, 1)]) \<and>
   example_first_open example_network_15 = Some (- 1, [(15, 15)])"
  by code_simp

section \<open>Power on\<close>




section \<open>Write then read\<close>

text \<open>Claim C1 fails for a sequence of bytes that holds a zero byte.  From program start a
  file is opened and the two bytes \<open>0x00, 0x41\<close> are written at offset 0; both calls
  succeed.  After a seek back to offset 0, a read of two bytes returns 2 and fills the buffer
  with \<open>0x00, 0x00\<close>: \<^verbatim>\<open>lcwrite\<close> enters the block in the cache through
  \<^verbatim>\<open>lcloud_putcache\<close>, whose \<^verbatim>\<open>strncpy\<close> copies the block up to its first zero byte and
  fills the rest with zeros, and \<^verbatim>\<open>lcread\<close> copies from the cached block.\<close>

theorem write_then_read_nul_byte:
  "\<exists>st1 st2 st3 st4.
     lcopen example_constants (fs_startup example_network) example_path = Some (st1, 0) \<and>
     lcwrite example_constants st1 0 [0x00, 0x41] 2 = Some (st2, 2) \<and>
     lcseek st2 0 0 = Some (st3, 0) \<and>
     lcread example_constants st3 0 [0xff, 0xff] 2 = Some (st4, 2, [0x00, 0x00])"
  using example_run_result unfolding example_run_def
  by (auto simp add: bind_eq_Some_conv)

section \<open>Open by path\<close>

text \<open>Claim C3 fails: \<^verbatim>\<open>files[fh].name == path\<close> compares the address of the name stored in
  the table with the address of the caller's string, not their characters.  From program
  start the path \<open>a\<close> is opened (handle 0); opened again through a second string with the
  same characters while the file is open, it is not refused but given the new handle 1; after
  two bytes are written to file 0 and it is closed, opening the path again gives a third
  handle, 2, of an empty file, while file 0 keeps its two bytes.\<close>

theorem lcopen_compares_addresses:
  "example_open_again = Some (0, 1, 2, 2, 0)"
  by code_simp

end
